theory Spec2Isabelle
  imports Main "HOL-Library.Sublist"
begin

section \<open>JavaScript values and library calls used by lib/phantom-tester.js\<close>

text \<open>
  Strings are lists of characters. \<open>indexOf\<close> is \<^verbatim>\<open>String.prototype.indexOf\<close>: the
  position of the first occurrence of the pattern, or \<open>-1\<close>. \<open>arr_indexOf\<close> is
  \<^verbatim>\<open>Array.prototype.indexOf\<close>, \<open>join\<close> is \<^verbatim>\<open>Array.prototype.join\<close>, and
  \<open>slice_from\<close> is \<^verbatim>\<open>s.slice(n)\<close> for a non-negative \<open>n\<close>.
\<close>

fun indexOf :: "'a list \<Rightarrow> 'a list \<Rightarrow> int" where
  "indexOf [] pat = (if pat = [] then 0 else - 1)"
| "indexOf (c # cs) pat =
     (if prefix pat (c # cs) then 0
      else (let i = indexOf cs pat in if i < 0 then - 1 else i + 1))"

fun arr_indexOf :: "'a list \<Rightarrow> 'a \<Rightarrow> int" where
  "arr_indexOf [] x = - 1"
| "arr_indexOf (y # ys) x =
     (if y = x then 0
      else (let i = arr_indexOf ys x in if i < 0 then - 1 else i + 1))"

fun join :: "string \<Rightarrow> string list \<Rightarrow> string" where
  "join sep [] = []"
| "join sep [x] = x"
| "join sep (x # y # ys) = x @ sep @ join sep (y # ys)"

definition slice_from :: "nat \<Rightarrow> string \<Rightarrow> string" where
  "slice_from n s = drop n s"

text \<open>Numbers are integers here; \<open>string_of_int\<close> is the string a number concatenates as.\<close>

definition digit_char :: "nat \<Rightarrow> char" where
  "digit_char d = ''0123456789'' ! d"

fun string_of_nat :: "nat \<Rightarrow> string" where
  "string_of_nat n =
     (if n < 10 then [digit_char n] else string_of_nat (n div 10) @ [digit_char (n mod 10)])"

declare string_of_nat.simps [simp del]

definition string_of_int :: "int \<Rightarrow> string" where
  "string_of_int i = (if i < 0 then CHR ''-'' # string_of_nat (nat (- i)) else string_of_nat (nat i))"

text \<open>
  A property that may be \<^verbatim>\<open>undefined\<close> is an \<open>option\<close>. \<open>truthy\<close> is the truth value
  of an optional string (\<^verbatim>\<open>undefined\<close> and the empty string are false), \<open>js_str\<close> the
  string it concatenates as, and \<open>js_or\<close> is \<^verbatim>\<open>a || b\<close>.
\<close>

definition truthy :: "string option \<Rightarrow> bool" where
  "truthy v = (case v of None \<Rightarrow> False | Some s \<Rightarrow> s \<noteq> [])"

definition js_str :: "string option \<Rightarrow> string" where
  "js_str v = (case v of None \<Rightarrow> ''undefined'' | Some s \<Rightarrow> s)"

definition js_or :: "string option \<Rightarrow> string option \<Rightarrow> string option" where
  "js_or a b = (if truthy a then a else b)"

definition newline :: char where
  "newline = CHR 0x0A"

section \<open>Command line configuration\<close>

record cfg =
  color :: bool
  debug :: bool
  verbose :: bool
  xunitName :: string

definition is_line_terminator :: "char \<Rightarrow> bool" where
  "is_line_terminator c = (c = CHR 0x0A \<or> c = CHR 0x0D)"

text \<open>
  \<^verbatim>\<open>arg.match(/\-\-xunitName=(.+)/)\<close>: the leftmost place where the key is followed by at
  least one character that is not a line terminator; the group is the rest of that line.
\<close>

fun match_xunitName :: "string \<Rightarrow> string option" where
  "match_xunitName [] = None"
| "match_xunitName (c # cs) =
     (let rest = takeWhile (\<lambda>x. \<not> is_line_terminator x) (drop 12 (c # cs)) in
      if prefix ''--xunitName='' (c # cs) \<and> rest \<noteq> [] then Some rest
      else match_xunitName cs)"

datatype style = Green | Red | Yellow | Bold

datatype error =
    PolyfillPathsNotDefined
  | CantInjectPolyfill
  | UserScriptPathsNotDefined
  | CantInjectUserscript
  | TypeError

text \<open>
  What the process does to the outside, in order: console output, the calls to the
  PhantomJS page driver, \<^verbatim>\<open>phantom.exit\<close>, and the report of an error no callback caught.
\<close>

datatype 'b event =
    ConsoleLog string
  | ConsoleError string
  | WebpageCreate
  | PageOpen string
  | InjectJs string bool
  | EvaluateXunit "'b option" string
  | EvaluateTest 'b
  | EvaluateTally string
  | PhantomExit int
  | Uncaught error

text \<open>
  \<open>parseCommandLineCfg\<close> returns the configuration and what it printed. With
  \<^verbatim>\<open>--color\<close> absent it sets \<^verbatim>\<open>colors.mode = "none"\<close>, which \<open>paint\<close> below reads
  from the \<open>color\<close> field.
\<close>

definition parseCommandLineCfg :: "string list \<Rightarrow> cfg \<times> 'b event list" where
  "parseCommandLineCfg aCmdArgs =
     (let bGlobalColor = arr_indexOf aCmdArgs ''--color'' > - 1;
          bGlobalDebug = arr_indexOf aCmdArgs ''--debug'' > - 1;
          bGlobalVerbose = arr_indexOf aCmdArgs ''--verbose'' > - 1;
          sxunitVarName = foldl (\<lambda>acc arg. case match_xunitName arg of Some m \<Rightarrow> Some m | None \<Rightarrow> acc)
                            None aCmdArgs
      in (\<lparr> color = bGlobalColor, debug = bGlobalDebug, verbose = bGlobalVerbose,
            xunitName = (case sxunitVarName of Some m \<Rightarrow> m | None \<Rightarrow> ''assert'') \<rparr>,
          if bGlobalDebug
          then [ConsoleLog (''PhantomJS command line args : '' @ join '' '' aCmdArgs)]
          else []))"

section \<open>The error handler of a page\<close>

record frame =
  t_file :: "string option"
  t_sourceURL :: "string option"
  t_line :: int
  t_function :: "string option"

definition frame_line :: "frame \<Rightarrow> string" where
  "frame_line t =
     '' -> '' @ js_str (js_or (t_file t) (t_sourceURL t)) @ '': '' @ string_of_int (t_line t)
       @ (if truthy (t_function t) then '' (in function '' @ js_str (t_function t) @ '')'' else '''')"

definition magicString :: string where
  "magicString = ''ASSERT_FAIL''"

text \<open>
  \<open>onError\<close> is the handler \<^verbatim>\<open>page.onError\<close> that \<open>openAndTest\<close> installs, with the
  variables \<open>bDebug\<close> and \<open>ignoredErrors\<close> of its closure as arguments. It returns its
  calls of \<^verbatim>\<open>console.error\<close>, in order.
\<close>

definition onError :: "bool \<Rightarrow> string list option \<Rightarrow> string \<Rightarrow> frame list option \<Rightarrow> string list" where
  "onError bDebug ignoredErrors msg trace =
     (let isAssertFail = indexOf msg magicString \<ge> 0;
          printed1 =
            (if bDebug \<and> \<not> isAssertFail then
               (let ignore = (case ignoredErrors of
                                None \<Rightarrow> False
                              | Some l \<Rightarrow> list_ex (\<lambda>ignoredMsg. indexOf msg ignoredMsg > - 1) l)
                in if \<not> ignore then
                     (let msgStack = [''PHANTOM ERROR: '' @ msg];
                          msgStack' = (case trace of
                                         None \<Rightarrow> msgStack
                                       | Some tr \<Rightarrow>
                                           if tr \<noteq> [] then msgStack @ map frame_line tr @ ['''']
                                           else msgStack)
                      in [join [newline] msgStack'])
                   else [])
             else []);
          printed2 = (if isAssertFail then (let strip = 7 in [slice_from strip msg]) else [])
      in printed1 @ printed2)"

definition onConsoleMessage :: "string \<Rightarrow> string" where
  "onConsoleMessage msg =
     (let padding = ''  >>> '' in
      padding @ concat (map (\<lambda>c. if c = newline then newline # padding else [c]) msg))"

section \<open>The PhantomJS host\<close>

text \<open>
  The page driver, the \<^verbatim>\<open>colors\<close> package and \<^verbatim>\<open>./client\<close> are not part of
  lib/phantom-tester.js; the model takes them as parameters. \<open>'pg\<close> is the state of a
  browser page and \<open>'b\<close> a function that is evaluated inside a page (a test body or an
  xunit library).
  \<^item> \<open>system_args\<close> is \<^verbatim>\<open>system.args\<close>;
  \<^item> \<open>stylize\<close> is what a style of \<^verbatim>\<open>colors\<close> does to a string when colours are on;
  \<^item> \<open>webpage_create\<close> is the page \<^verbatim>\<open>webpage.create()\<close> returns;
  \<^item> \<open>navigate url pg\<close> loads the page and gives the status passed to the callback of
    \<^verbatim>\<open>page.open\<close>;
  \<^item> \<open>injectJs path pg\<close> is \<^verbatim>\<open>page.injectJs(path)\<close>: its result and the page after it;
  \<^item> \<open>evaluate_xunit x name pg\<close> is \<^verbatim>\<open>page.evaluate(xunit, CFG.xunitName)\<close>, where
    \<open>None\<close> stands for the built-in \<^verbatim>\<open>client.xunit\<close>;
  \<^item> \<open>evaluate_test fn args pg\<close> is
    \<^verbatim>\<open>page.evaluate(client.wrapWithTryCatch(), fn, args)\<close>: the truth value of what
    it returns, and the page after it;
  \<^item> \<open>evaluate_tally name pg\<close> is \<^verbatim>\<open>page.evaluate(function (n) { return window[n]; }, name)\<close>,
    \<open>None\<close> when that variable is undefined.
\<close>

type_synonym jsobj = "(string \<times> string) list"

record asserts =
  goodAsserts :: int
  badAsserts :: int

record ('b, 'pg) phantom =
  system_args :: "string list"
  stylize :: "style \<Rightarrow> string \<Rightarrow> string"
  webpage_create :: "'pg"
  navigate :: "string \<Rightarrow> 'pg \<Rightarrow> string \<times> 'pg"
  injectJs :: "string \<Rightarrow> 'pg \<Rightarrow> bool \<times> 'pg"
  evaluate_xunit :: "'b option \<Rightarrow> string \<Rightarrow> 'pg \<Rightarrow> 'pg"
  evaluate_test :: "'b \<Rightarrow> jsobj \<Rightarrow> 'pg \<Rightarrow> bool \<times> 'pg"
  evaluate_tally :: "string \<Rightarrow> 'pg \<Rightarrow> asserts option"

definition CFG :: "('b, 'pg) phantom \<Rightarrow> cfg" where
  "CFG env = fst (parseCommandLineCfg (system_args env) :: cfg \<times> 'b event list)"

definition paint :: "('b, 'pg) phantom \<Rightarrow> style list \<Rightarrow> string \<Rightarrow> string" where
  "paint env styles s = (if color (CFG env) then foldl (\<lambda>acc st. stylize env st acc) s styles else s)"

section \<open>The tester module and the process\<close>

record 'b test =
  testName :: string
  testFn :: "'b"

text \<open>
  A registered suite is the argument list of \<open>registerSuite\<close>: the URL and the function
  that gathers the tests. That function is given by the calls \<^verbatim>\<open>test(name, fn)\<close> it
  makes on the runner it receives, in order.
\<close>

record 'b suite =
  url :: string
  feedRunnerWithTests :: "'b test list"

record phantom_conf =
  ph_debug :: "bool option"
  ph_verbose :: "bool option"
  ignoredErrors :: "string list option"

record config =
  phantom :: "phantom_conf option"

text \<open>
  The variables the callbacks of one \<open>openAndTest\<close> call close over: its arguments
  (\<open>done\<close> is the pair \<open>(n, nSuites)\<close> that the callback of \<open>getSuiteDoneCb\<close> closes
  over) and \<open>bDebug\<close>, \<open>bVerbose\<close>, \<open>ignoredErrors\<close>, \<open>testArgs\<close>.
\<close>

record 'b closure =
  c_url :: string
  c_feed :: "'b test list"
  c_suiteId :: nat
  c_done :: "nat \<times> nat"
  c_bDebug :: bool
  c_bVerbose :: bool
  c_ignoredErrors :: "string list option"
  c_testArgs :: jsobj

text \<open>
  The state of the process: the fields of \<^verbatim>\<open>module.exports\<close>, the output so far, the
  page whose load is pending together with the closure of its callbacks, and the status
  given to \<^verbatim>\<open>phantom.exit\<close>.
\<close>

record ('b, 'pg) world =
  xunit :: "'b option"
  config :: config
  testArgs :: "jsobj option"
  polyfillPaths :: "string list option"
  userScriptPaths :: "string list option"
  registeredSuites :: "'b suite list"
  exitCodes :: "int list"
  out :: "'b event list"
  pending :: "('b closure \<times> 'pg) option"
  exited :: "int option"

text \<open>The module as it is loaded: \<^verbatim>\<open>CFG = parseCommandLineCfg()\<close> has run.\<close>

definition initial :: "('b, 'pg) phantom \<Rightarrow> ('b, 'pg) world" where
  "initial env =
     \<lparr> xunit = None, config = \<lparr> phantom = None \<rparr>, testArgs = Some [],
       polyfillPaths = Some [], userScriptPaths = Some [], registeredSuites = [],
       exitCodes = [], out = snd (parseCommandLineCfg (system_args env)),
       pending = None, exited = None \<rparr>"

text \<open>A call either returns (\<open>Done\<close>) or throws (\<open>Thrown\<close>); both carry the state reached.\<close>

datatype 's outcome = Done 's | Thrown error 's

fun state_of :: "'s outcome \<Rightarrow> 's" where
  "state_of (Done s) = s"
| "state_of (Thrown e s) = s"

fun thrown :: "'s outcome \<Rightarrow> error option" where
  "thrown (Done s) = None"
| "thrown (Thrown e s) = Some e"

definition emit :: "'b event list \<Rightarrow> ('b, 'pg) world \<Rightarrow> ('b, 'pg) world" where
  "emit evs w = w\<lparr>out := out w @ evs\<rparr>"

definition console_log :: "string \<Rightarrow> ('b, 'pg) world \<Rightarrow> ('b, 'pg) world" where
  "console_log msg w = emit [ConsoleLog msg] w"

definition console_error :: "string \<Rightarrow> ('b, 'pg) world \<Rightarrow> ('b, 'pg) world" where
  "console_error msg w = emit [ConsoleError msg] w"

definition phantom_exit :: "int \<Rightarrow> ('b, 'pg) world \<Rightarrow> ('b, 'pg) world" where
  "phantom_exit code w = (emit [PhantomExit code] w)\<lparr>exited := Some code\<rparr>"

definition verbose_log :: "bool \<Rightarrow> string \<Rightarrow> ('b, 'pg) world \<Rightarrow> ('b, 'pg) world" where
  "verbose_log bVerbose msg w = (if bVerbose then console_log msg w else w)"

subsection \<open>getTestRunner\<close>

definition testRunner :: "'b test list \<Rightarrow> string \<Rightarrow> 'b \<Rightarrow> 'b test list" where
  "testRunner pendingTests name fn = pendingTests @ [\<lparr> testName = name, testFn = fn \<rparr>]"

definition gather :: "'b test list \<Rightarrow> 'b test list" where
  "gather feed = foldl (\<lambda>pendingTests t. testRunner pendingTests (testName t) (testFn t)) [] feed"

definition test_line :: "('b, 'pg) phantom \<Rightarrow> bool \<Rightarrow> string \<Rightarrow> string" where
  "test_line env ok name =
     (if ok then paint env [Green, Bold] '' [ OK ] '' else paint env [Red, Bold] '' [FAIL] '') @ name"

fun testRunner_start ::
  "('b, 'pg) phantom \<Rightarrow> jsobj \<Rightarrow> 'b test list \<Rightarrow> 'pg \<times> ('b, 'pg) world \<Rightarrow> 'pg \<times> ('b, 'pg) world"
where
  "testRunner_start env args [] (pg, w) = (pg, w)"
| "testRunner_start env args (t # pendingTests) (pg, w) =
     (let (ok, pg') = evaluate_test env (testFn t) args pg;
          w1 = emit [EvaluateTest (testFn t)] w;
          w2 = console_log (test_line env ok (testName t)) w1
      in testRunner_start env args pendingTests (pg', w2))"

subsection \<open>onTestSuiteFinished\<close>

definition onTestSuiteFinished ::
  "('b, 'pg) phantom \<Rightarrow> 'pg \<Rightarrow> nat \<times> nat \<Rightarrow> (int \<Rightarrow> ('b, 'pg) world \<Rightarrow> ('b, 'pg) world outcome)
     \<Rightarrow> ('b, 'pg) world \<Rightarrow> ('b, 'pg) world outcome"
where
  "onTestSuiteFinished env pg suite done w =
     (let w1 = emit [EvaluateTally (xunitName (CFG env))] w in
      case evaluate_tally env (xunitName (CFG env)) pg of
        None \<Rightarrow> Thrown TypeError w1
      | Some a \<Rightarrow>
          (let hasFailures = badAsserts a > 0;
               msg = [newline] @ ''  Test suite '' @ string_of_nat (fst suite + 1) @ ''/''
                       @ string_of_nat (snd suite) @ '' finished: '';
               msg1 = msg @ paint env [Green, Bold] (string_of_int (goodAsserts a) @ '' asserts OK'');
               msg2 = (if hasFailures
                       then msg1 @ ''; '' @ paint env [Red, Bold] (string_of_int (badAsserts a) @ '' asserts KO'')
                       else msg1);
               w2 = console_log (msg2 @ [newline]) w1
           in done (if hasFailures then 99 else 0) w2))"

subsection \<open>openAndTest and its callbacks\<close>

definition openAndTest ::
  "('b, 'pg) phantom \<Rightarrow> string \<Rightarrow> 'b test list \<Rightarrow> nat \<Rightarrow> nat \<times> nat \<Rightarrow> ('b, 'pg) world \<Rightarrow> ('b, 'pg) world"
where
  "openAndTest env u feed suiteId done w =
     (let ph = (case phantom (config w) of
                  None \<Rightarrow> \<lparr> ph_debug = None, ph_verbose = None, ignoredErrors = None \<rparr>
                | Some p \<Rightarrow> p);
          w1 = w\<lparr>config := (config w)\<lparr>phantom := Some ph\<rparr>\<rparr>;
          bDebug = (case ph_debug ph of Some d \<Rightarrow> d | None \<Rightarrow> debug (CFG env));
          bVerbose = (case ph_verbose ph of Some v \<Rightarrow> v | None \<Rightarrow> verbose (CFG env));
          tArgs = (case testArgs w1 of Some a \<Rightarrow> a | None \<Rightarrow> []);
          ignored = ignoredErrors ph;
          w2 = emit [WebpageCreate] w1;
          page = webpage_create env;
          w3 = emit [PageOpen u] w2
      in w3\<lparr>pending := Some (\<lparr> c_url = u, c_feed = feed, c_suiteId = suiteId, c_done = done,
                                c_bDebug = bDebug, c_bVerbose = bVerbose,
                                c_ignoredErrors = ignored, c_testArgs = tArgs \<rparr>, page)\<rparr>)"

fun inject_polyfills ::
  "('b, 'pg) phantom \<Rightarrow> bool \<Rightarrow> string list \<Rightarrow> 'pg \<times> ('b, 'pg) world \<Rightarrow> ('pg \<times> ('b, 'pg) world) outcome"
where
  "inject_polyfills env bVerbose [] (pg, w) = Done (pg, w)"
| "inject_polyfills env bVerbose (p # ps) (pg, w) =
     (let w1 = verbose_log bVerbose ('' * Injecting the polyfill... ('' @ p @ '')'') w;
          (injected, pg') = injectJs env p pg;
          w2 = emit [InjectJs p injected] w1
      in if \<not> injected then Thrown CantInjectPolyfill (pg', w2)
         else inject_polyfills env bVerbose ps (pg', w2))"

definition onInitialized ::
  "('b, 'pg) phantom \<Rightarrow> 'b closure \<Rightarrow> 'pg \<times> ('b, 'pg) world \<Rightarrow> ('pg \<times> ('b, 'pg) world) outcome"
where
  "onInitialized env c s =
     (case polyfillPaths (snd s) of
        None \<Rightarrow> Thrown PolyfillPathsNotDefined s
      | Some pfPaths \<Rightarrow> inject_polyfills env (c_bVerbose c) pfPaths s)"

fun inject_userscripts ::
  "('b, 'pg) phantom \<Rightarrow> bool \<Rightarrow> string list \<Rightarrow> 'pg \<times> ('b, 'pg) world \<Rightarrow> ('pg \<times> ('b, 'pg) world) outcome"
where
  "inject_userscripts env bVerbose [] (pg, w) = Done (pg, w)"
| "inject_userscripts env bVerbose (p # ps) (pg, w) =
     (let w1 = verbose_log bVerbose ('' * Injecting the userscript... ('' @ p @ '')'') w;
          (injected, pg') = injectJs env p pg;
          w2 = emit [InjectJs p injected] w1
      in if \<not> injected then Thrown CantInjectUserscript (pg', w2)
         else inject_userscripts env bVerbose ps (pg', w2))"

text \<open>
  \<open>run_tests\<close> is the part of the callback of \<^verbatim>\<open>page.open\<close> after the user scripts are
  in: the xunit library, the gathering and running of the tests, and the hand-over to
  \<open>onTestSuiteFinished\<close>.
\<close>

definition run_tests ::
  "('b, 'pg) phantom \<Rightarrow> 'b closure \<Rightarrow> (int \<Rightarrow> ('b, 'pg) world \<Rightarrow> ('b, 'pg) world outcome)
     \<Rightarrow> 'pg \<times> ('b, 'pg) world \<Rightarrow> ('b, 'pg) world outcome"
where
  "run_tests env c done s =
     (let (pg, w) = s;
          w1 = verbose_log (c_bVerbose c) '' * Injecting the unit test utils... '' w;
          x = xunit w1;
          w2 = (if x \<noteq> None then verbose_log (c_bVerbose c) '' * Using user-supplied xunit... '' w1 else w1);
          w3 = emit [EvaluateXunit x (xunitName (CFG env))] w2;
          pg1 = evaluate_xunit env x (xunitName (CFG env)) pg;
          w4 = verbose_log (c_bVerbose c) ('' * Starting the tests... '' @ [newline]) w3;
          pendingTests = gather (c_feed c);
          (pg2, w5) = testRunner_start env (c_testArgs c) pendingTests (pg1, w4)
      in onTestSuiteFinished env pg2 (c_suiteId c, length (registeredSuites w5)) done w5)"

definition open_callback ::
  "('b, 'pg) phantom \<Rightarrow> 'b closure \<Rightarrow> (int \<Rightarrow> ('b, 'pg) world \<Rightarrow> ('b, 'pg) world outcome)
     \<Rightarrow> string \<Rightarrow> 'pg \<times> ('b, 'pg) world \<Rightarrow> ('b, 'pg) world outcome"
where
  "open_callback env c done status s =
     (let (pg, w) = s;
          w1 = verbose_log (c_bVerbose c) '' Initializing the test:'' w;
          w2 = verbose_log (c_bVerbose c) ('' * Page loaded with status '' @ status) w1
      in case userScriptPaths w2 of
           None \<Rightarrow> Thrown UserScriptPathsNotDefined w2
         | Some usPaths \<Rightarrow>
             (case inject_userscripts env (c_bVerbose c) usPaths (pg, w2) of
                Thrown e (pg', w') \<Rightarrow> Thrown e w'
              | Done s' \<Rightarrow> run_tests env c done s'))"

subsection \<open>The module's functions\<close>

definition userScript :: "string \<Rightarrow> ('b, 'pg) world \<Rightarrow> ('b, 'pg) world outcome" where
  "userScript userScriptPath w =
     (case userScriptPaths w of
        None \<Rightarrow> Thrown TypeError w
      | Some ps \<Rightarrow> Done (w\<lparr>userScriptPaths := Some (ps @ [userScriptPath])\<rparr>))"

definition polyfill :: "string \<Rightarrow> ('b, 'pg) world \<Rightarrow> ('b, 'pg) world outcome" where
  "polyfill polyfillPath w =
     (case polyfillPaths w of
        None \<Rightarrow> Thrown TypeError w
      | Some ps \<Rightarrow> Done (w\<lparr>polyfillPaths := Some (ps @ [polyfillPath])\<rparr>))"

definition setConfig :: "config \<Rightarrow> ('b, 'pg) world \<Rightarrow> ('b, 'pg) world" where
  "setConfig cfgObj w = w\<lparr>config := cfgObj\<rparr>"

definition setTestArgs :: "jsobj option \<Rightarrow> ('b, 'pg) world \<Rightarrow> ('b, 'pg) world" where
  "setTestArgs args w = w\<lparr>testArgs := args\<rparr>"

definition setXUnit :: "'b option \<Rightarrow> ('b, 'pg) world \<Rightarrow> ('b, 'pg) world" where
  "setXUnit x w = w\<lparr>xunit := x\<rparr>"

definition registerSuite :: "'b suite \<Rightarrow> ('b, 'pg) world \<Rightarrow> ('b, 'pg) world outcome" where
  "registerSuite args w = Done (w\<lparr>registeredSuites := registeredSuites w @ [args]\<rparr>)"

definition br :: string where
  "br = replicate 10 CHR ''-''"

definition getSuiteDoneCb :: "nat \<Rightarrow> ('b, 'pg) world \<Rightarrow> nat \<times> nat" where
  "getSuiteDoneCb n w = (n, length (registeredSuites w))"

definition startSuite :: "('b, 'pg) phantom \<Rightarrow> nat \<Rightarrow> ('b, 'pg) world \<Rightarrow> ('b, 'pg) world outcome" where
  "startSuite env n w =
     (let nSuites = length (registeredSuites w) in
      if n < length (registeredSuites w) then
        (let args = registeredSuites w ! n;
             u = url args;
             w1 = (if n > 0 then console_log (br @ [newline]) w else w);
             w2 = console_log (''Starting test suite '' @ string_of_nat (n + 1) @ ''/''
                     @ string_of_nat nSuites @ '': '' @ paint env [Yellow] u @ [newline]) w1
         in Done (openAndTest env u (feedRunnerWithTests args) n (getSuiteDoneCb n w2) w2))
      else Thrown TypeError w)"

text \<open>
  \<open>suiteDone env (n, nSuites)\<close> is the callback that \<open>getSuiteDoneCb n\<close> returns.
  \<open>startSuite\<close> appends \<open>n\<close> and that callback to the stored argument list of the suite
  before it applies \<open>openAndTest\<close> to it; suites are registered with URL and gathering
  function only and each is started once, so these are the third and fourth argument.
\<close>

definition suiteDone ::
  "('b, 'pg) phantom \<Rightarrow> nat \<times> nat \<Rightarrow> int \<Rightarrow> ('b, 'pg) world \<Rightarrow> ('b, 'pg) world outcome"
where
  "suiteDone env cb exitCode w =
     (let (n, nSuites) = cb;
          w1 = w\<lparr>exitCodes := exitCodes w @ [exitCode]\<rparr>;
          nextSuiteId = n + 1
      in if nextSuiteId < nSuites then startSuite env nextSuiteId w1
         else
           (let hasError = arr_indexOf (exitCodes w1) 99 > - 1;
                msg = ''All suites finished; '';
                msg' = (if hasError then paint env [Red] (msg @ ''there were some failures.'')
                        else paint env [Green] (msg @ ''OK''));
                w2 = console_log msg' w1
            in Done (phantom_exit (if hasError then 99 else 0) w2)))"

definition start :: "('b, 'pg) phantom \<Rightarrow> ('b, 'pg) world \<Rightarrow> ('b, 'pg) world outcome" where
  "start env w =
     (if length (registeredSuites w) > 0 then startSuite env 0 w
      else Done (phantom_exit 98 (console_error ''No suites registered!'' w)))"

subsection \<open>The host's event loop\<close>

text \<open>
  \<open>openAndTest\<close> hands two callbacks to PhantomJS and returns. PhantomJS calls
  \<^verbatim>\<open>page.onInitialized\<close> once the page object exists and before the page's own scripts
  run, and the callback of \<^verbatim>\<open>page.open\<close> when the load has finished. An error that
  escapes a callback is passed to \<^verbatim>\<open>phantom.onError\<close>, whose default handler prints
  it; lib/phantom-tester.js installs no handler of its own and records no failure, so
  the process keeps running and the other callback is still called. The process ends
  only at \<^verbatim>\<open>phantom.exit\<close>: after an error in the callback of \<^verbatim>\<open>page.open\<close> nothing is
  pending and it waits for ever.
  \<open>host_load\<close> is one completed page load and \<open>run env k\<close> the process after \<open>k\<close> of
  them; the handlers \<open>onError\<close> and \<open>onConsoleMessage\<close>, which the page calls while it
  runs, only print and are described on their own above.
\<close>

fun uncaught :: "('b, 'pg) world outcome \<Rightarrow> ('b, 'pg) world" where
  "uncaught (Done w) = w"
| "uncaught (Thrown e w) = emit [Uncaught e] w"

definition host_load :: "('b, 'pg) phantom \<Rightarrow> ('b, 'pg) world \<Rightarrow> ('b, 'pg) world" where
  "host_load env w =
     (case pending w of
        None \<Rightarrow> w
      | Some (c, pg) \<Rightarrow>
          (let w0 = w\<lparr>pending := None\<rparr>;
               r = onInitialized env c (pg, w0);
               (pg1, w1) = state_of r;
               w2 = (case thrown r of None \<Rightarrow> w1 | Some e \<Rightarrow> emit [Uncaught e] w1);
               (status, pg2) = navigate env (c_url c) pg1
           in uncaught (open_callback env c (suiteDone env (c_done c)) status (pg2, w2))))"

fun run :: "('b, 'pg) phantom \<Rightarrow> nat \<Rightarrow> ('b, 'pg) world \<Rightarrow> ('b, 'pg) world" where
  "run env 0 w = w"
| "run env (Suc k) w = (if exited w \<noteq> None then w else run env k (host_load env w))"

section \<open>Observations on the output\<close>

text \<open>
  \<open>quiet\<close> output creates no page, opens none and does not exit; \<open>quietly w w'\<close> says
  that \<open>w'\<close> is \<open>w\<close> after quiet output and nothing else. \<open>page_opens\<close> are the URLs
  given to \<^verbatim>\<open>page.open\<close>, in order, and \<open>pages_created\<close> counts the calls of
  \<^verbatim>\<open>webpage.create\<close>.
\<close>

fun is_page_event :: "'b event \<Rightarrow> bool" where
  "is_page_event WebpageCreate = True"
| "is_page_event (PageOpen u) = True"
| "is_page_event (PhantomExit c) = True"
| "is_page_event e = False"

definition quiet :: "'b event list \<Rightarrow> bool" where
  "quiet evs = list_all (\<lambda>e. \<not> is_page_event e) evs"

definition quietly :: "('b, 'pg) world \<Rightarrow> ('b, 'pg) world \<Rightarrow> bool" where
  "quietly w w' = (\<exists>evs. quiet evs \<and> w' = emit evs w)"

definition page_opens :: "'b event list \<Rightarrow> string list" where
  "page_opens evs = concat (map (\<lambda>e. case e of PageOpen u \<Rightarrow> [u] | _ \<Rightarrow> []) evs)"

definition pages_created :: "'b event list \<Rightarrow> nat" where
  "pages_created evs = length (filter (\<lambda>e. e = WebpageCreate) evs)"

section \<open>Reference notions and sample inputs\<close>

text \<open>
  \<open>outcomes\<close> lists what the wrapped test bodies return when they are evaluated one
  after another, each on the page its predecessors left.
\<close>

fun outcomes :: "('b, 'pg) phantom \<Rightarrow> jsobj \<Rightarrow> 'b test list \<Rightarrow> 'pg \<Rightarrow> bool list" where
  "outcomes env args [] pg = []"
| "outcomes env args (t # ts) pg =
     (let (ok, pg') = evaluate_test env (testFn t) args pg in ok # outcomes env args ts pg')"


text \<open>
  A small host on which the model can be run: a page is the tally of its xunit library
  (\<open>None\<close> before the library is in), the test body \<open>0\<close> makes one good assertion and
  every other body one bad assertion, every script but \<^verbatim>\<open>missing.js\<close> can be injected,
  and the command line has no flags.
\<close>

definition sample_host :: "(nat, asserts option) phantom" where
  "sample_host =
     \<lparr> system_args = [''phantomjs'', ''run.js''],
       stylize = (\<lambda>st s. s),
       webpage_create = None,
       navigate = (\<lambda>u pg. (''success'', pg)),
       injectJs = (\<lambda>p pg. (p \<noteq> ''missing.js'', pg)),
       evaluate_xunit = (\<lambda>x name pg. Some \<lparr> goodAsserts = 0, badAsserts = 0 \<rparr>),
       evaluate_test = (\<lambda>fn args pg.
          case pg of
            None \<Rightarrow> (False, None)
          | Some a \<Rightarrow>
              if fn = 0 then (True, Some (a\<lparr>goodAsserts := goodAsserts a + 1\<rparr>))
              else (False, Some (a\<lparr>badAsserts := badAsserts a + 1\<rparr>))),
       evaluate_tally = (\<lambda>name pg. pg) \<rparr>"

definition suite_a :: "nat suite" where
  "suite_a = \<lparr> url = ''http://a.test/'',
               feedRunnerWithTests = [\<lparr> testName = ''passes'', testFn = 0 \<rparr>] \<rparr>"

definition suite_b :: "nat suite" where
  "suite_b = \<lparr> url = ''http://b.test/'',
               feedRunnerWithTests = [\<lparr> testName = ''fails'', testFn = 1 \<rparr>,
                                      \<lparr> testName = ''passes'', testFn = 0 \<rparr>] \<rparr>"

text \<open>Two suites and one user script; and one suite behind a polyfill that cannot be injected.\<close>

definition w_ab :: "(nat, asserts option) world" where
  "w_ab = state_of (registerSuite suite_b (state_of (registerSuite suite_a
              (state_of (userScript ''user.js'' (initial sample_host))))))"

definition w_poly :: "(nat, asserts option) world" where
  "w_poly = state_of (registerSuite suite_a
              (state_of (userScript ''user.js'' (state_of (polyfill ''missing.js'' (initial sample_host))))))"

section \<open>Invariants of a run\<close>

text \<open>
  \<open>throw_cause env w e\<close> lists the ways the callback of \<^verbatim>\<open>page.open\<close> can throw \<open>e\<close>:
  the list of user scripts is undefined, some injection fails, or the page has no tally.
\<close>

definition throw_cause :: "('b, 'pg) phantom \<Rightarrow> ('b, 'pg) world \<Rightarrow> error \<Rightarrow> bool" where
  "throw_cause env w e =
     (e = UserScriptPathsNotDefined \<and> userScriptPaths w = None
      \<or> e = CantInjectUserscript \<and> (\<exists>p pg. \<not> fst (injectJs env p pg))
      \<or> e = TypeError \<and> (\<exists>pg. evaluate_tally env (xunitName (CFG env)) pg = None))"

text \<open>
  \<open>run_inv w0 w\<close> holds of every state \<open>w\<close> of a run that \<open>start\<close> began in \<open>w0\<close>: the
  pages opened so far are those of the first \<open>m\<close> registered suites in order, the exit
  codes of the first \<open>m - 1\<close> of them are recorded while the page of suite \<open>m - 1\<close> is
  pending, and the process has exited only after the last suite, with the status that
  the recorded codes determine.
\<close>

definition run_inv :: "('b, 'pg) world \<Rightarrow> ('b, 'pg) world \<Rightarrow> bool" where
  "run_inv w0 w =
     (\<exists>m. 1 \<le> m \<and> m \<le> length (registeredSuites w0)
        \<and> registeredSuites w = registeredSuites w0
        \<and> page_opens (out w) = page_opens (out w0) @ map url (take m (registeredSuites w0))
        \<and> pages_created (out w) = pages_created (out w0) + m
        \<and> take (length (exitCodes w0)) (exitCodes w) = exitCodes w0
        \<and> (case pending w of
              Some (c, pg) \<Rightarrow>
                c_suiteId c = m - 1 \<and> c_done c = (m - 1, length (registeredSuites w0))
                \<and> length (exitCodes w) = length (exitCodes w0) + (m - 1) \<and> exited w = None
            | None \<Rightarrow>
                (case exited w of
                   None \<Rightarrow> length (exitCodes w) = length (exitCodes w0) + (m - 1)
                 | Some st \<Rightarrow>
                     m = length (registeredSuites w0)
                     \<and> length (exitCodes w) = length (exitCodes w0) + m
                     \<and> st = (if 99 \<in> set (exitCodes w) then 99 else 0))))"

text \<open>One suite behind a user script that cannot be injected.\<close>

definition w_user :: "(nat, asserts option) world" where
  "w_user = state_of (registerSuite suite_b (state_of (registerSuite suite_a
              (state_of (userScript ''missing.js'' (initial sample_host))))))"

section \<open>Facts about the library calls\<close>

lemma indexOf_nonneg_iff: "indexOf s pat \<ge> 0 \<longleftrightarrow> sublist pat s"
proof (induction s)
  case Nil
  then show ?case by simp
next
  case (Cons c cs)
  show ?case
  proof (cases "prefix pat (c # cs)")
    case True
    then show ?thesis by (simp add: prefix_imp_sublist)
  next
    case False
    then show ?thesis using Cons.IH
      by (auto simp: Let_def sublist_Cons_right)
  qed
qed

lemma indexOf_ge_minus1: "indexOf s pat \<ge> - 1"
  by (induction s) (auto simp: Let_def)

lemma indexOf_gt_iff: "indexOf s pat > - 1 \<longleftrightarrow> sublist pat s"
  using indexOf_nonneg_iff [of s pat] by linarith

lemma arr_indexOf_gt_iff: "arr_indexOf xs x > - 1 \<longleftrightarrow> x \<in> set xs"
  by (induction xs) (auto simp: Let_def)

section \<open>What the callbacks do to the process\<close>

lemma emit_sel:
  "xunit (emit evs w) = xunit w" "config (emit evs w) = config w"
  "testArgs (emit evs w) = testArgs w" "polyfillPaths (emit evs w) = polyfillPaths w"
  "userScriptPaths (emit evs w) = userScriptPaths w"
  "registeredSuites (emit evs w) = registeredSuites w"
  "exitCodes (emit evs w) = exitCodes w" "out (emit evs w) = out w @ evs"
  "pending (emit evs w) = pending w" "exited (emit evs w) = exited w"
  by (simp_all add: emit_def)

lemma emit_emit: "emit b (emit a w) = emit (a @ b) w"
  by (simp add: emit_def)

lemma emit_Nil: "emit [] w = w"
  by (simp add: emit_def)

lemma emit_upd:
  "(emit evs w)\<lparr>pending := p\<rparr> = emit evs (w\<lparr>pending := p\<rparr>)"
  "(emit evs w)\<lparr>exited := x\<rparr> = emit evs (w\<lparr>exited := x\<rparr>)"
  "(emit evs w)\<lparr>exitCodes := cs\<rparr> = emit evs (w\<lparr>exitCodes := cs\<rparr>)"
  "(emit evs w)\<lparr>config := cf\<rparr> = emit evs (w\<lparr>config := cf\<rparr>)"
  by (simp_all add: emit_def)

lemma quiet_simps:
  "quiet []" "quiet (a @ b) = (quiet a \<and> quiet b)"
  "quiet (e # evs) = (\<not> is_page_event e \<and> quiet evs)"
  by (auto simp: quiet_def)

lemma quietly_refl: "quietly w w"
  unfolding quietly_def using quiet_simps(1) emit_Nil by metis

lemma quietly_trans: "quietly w w' \<Longrightarrow> quietly w' w'' \<Longrightarrow> quietly w w''"
  unfolding quietly_def using quiet_simps(2) emit_emit by metis

lemma quietly_emit: "quiet evs \<Longrightarrow> quietly w (emit evs w)"
  unfolding quietly_def by blast

lemma quietly_emit1: "\<not> is_page_event e \<Longrightarrow> quietly w (emit [e] w)"
  by (rule quietly_emit) (simp add: quiet_simps)

lemma quietly_console_log: "quietly w (console_log m w)"
  unfolding console_log_def by (rule quietly_emit) (simp add: quiet_simps)

lemma quietly_verbose_log: "quietly w (verbose_log b m w)"
  unfolding verbose_log_def by (simp add: quietly_refl quietly_console_log)

lemma quietly_sel:
  assumes "quietly w w'"
  shows "xunit w' = xunit w" "config w' = config w" "testArgs w' = testArgs w"
    "polyfillPaths w' = polyfillPaths w" "userScriptPaths w' = userScriptPaths w"
    "registeredSuites w' = registeredSuites w" "exitCodes w' = exitCodes w"
    "pending w' = pending w" "exited w' = exited w"
  using assms unfolding quietly_def by (auto simp: emit_sel)

lemma inject_polyfills_quietly:
  "quietly w (snd (state_of (inject_polyfills env b ps (pg, w))))"
proof (induction ps arbitrary: pg w)
  case Nil
  show ?case by (simp add: quietly_refl)
next
  case (Cons p ps)
  obtain inj pg1 where i: "injectJs env p pg = (inj, pg1)" by (cases "injectJs env p pg")
  let ?w1 = "verbose_log b ('' * Injecting the polyfill... ('' @ p @ '')'') w"
  let ?w2 = "emit [InjectJs p inj] ?w1"
  have "quietly w ?w1" by (rule quietly_verbose_log)
  moreover have "quietly ?w1 ?w2" by (rule quietly_emit1) simp
  ultimately have q: "quietly w ?w2" by (rule quietly_trans)
  show ?case
  proof (cases inj)
    case False
    then show ?thesis using i q by simp
  next
    case True
    then show ?thesis using i quietly_trans [OF q Cons.IH [of ?w2 pg1]] by simp
  qed
qed

lemma inject_userscripts_quietly:
  "quietly w (snd (state_of (inject_userscripts env b ps (pg, w))))"
proof (induction ps arbitrary: pg w)
  case Nil
  show ?case by (simp add: quietly_refl)
next
  case (Cons p ps)
  obtain inj pg1 where i: "injectJs env p pg = (inj, pg1)" by (cases "injectJs env p pg")
  let ?w1 = "verbose_log b ('' * Injecting the userscript... ('' @ p @ '')'') w"
  let ?w2 = "emit [InjectJs p inj] ?w1"
  have "quietly w ?w1" by (rule quietly_verbose_log)
  moreover have "quietly ?w1 ?w2" by (rule quietly_emit1) simp
  ultimately have q: "quietly w ?w2" by (rule quietly_trans)
  show ?case
  proof (cases inj)
    case False
    then show ?thesis using i q by simp
  next
    case True
    then show ?thesis using i quietly_trans [OF q Cons.IH [of ?w2 pg1]] by simp
  qed
qed

lemma inject_userscripts_thrown:
  assumes "inject_userscripts env b ps (pg, w) = Thrown e s"
  shows "e = CantInjectUserscript \<and> (\<exists>p pg'. \<not> fst (injectJs env p pg'))"
  using assms
proof (induction ps arbitrary: pg w)
  case Nil
  then show ?case by simp
next
  case (Cons p ps)
  obtain inj pg1 where i: "injectJs env p pg = (inj, pg1)" by (cases "injectJs env p pg")
  show ?case
  proof (cases inj)
    case False
    have "\<not> fst (injectJs env p pg)" using i False by simp
    then have "\<exists>p pg'. \<not> fst (injectJs env p pg')" by blast
    then show ?thesis using Cons.prems i False by simp
  next
    case True
    then show ?thesis using Cons.prems i Cons.IH by simp
  qed
qed

lemma onInitialized_quietly:
  "quietly w (snd (state_of (onInitialized env c (pg, w))))"
  by (simp add: onInitialized_def inject_polyfills_quietly quietly_refl split: option.split)

lemma testRunner_start_quietly:
  "quietly w (snd (testRunner_start env args ts (pg, w)))"
proof (induction ts arbitrary: pg w)
  case Nil
  show ?case by (simp add: quietly_refl)
next
  case (Cons t ts)
  obtain ok pg1 where e: "evaluate_test env (testFn t) args pg = (ok, pg1)"
    by (cases "evaluate_test env (testFn t) args pg")
  let ?w1 = "emit [EvaluateTest (testFn t)] w"
  let ?w2 = "console_log (test_line env ok (testName t)) ?w1"
  have "quietly w ?w1" by (rule quietly_emit1) simp
  moreover have "quietly ?w1 ?w2" by (rule quietly_console_log)
  ultimately have q: "quietly w ?w2" by (rule quietly_trans)
  show ?case using e quietly_trans [OF q Cons.IH [of ?w2 pg1]] by simp
qed

lemma onTestSuiteFinished_cases:
  obtains (throws) w' where "quietly w w'"
      and "onTestSuiteFinished env pg suite done w = Thrown TypeError w'"
      and "evaluate_tally env (xunitName (CFG env)) pg = None"
  | (calls) w' a where "quietly w w'"
      and "evaluate_tally env (xunitName (CFG env)) pg = Some a"
      and "onTestSuiteFinished env pg suite done w = done (if badAsserts a > 0 then 99 else 0) w'"
proof (cases "evaluate_tally env (xunitName (CFG env)) pg")
  case None
  let ?w1 = "emit [EvaluateTally (xunitName (CFG env))] w"
  have "quietly w ?w1" by (rule quietly_emit1) simp
  moreover have "onTestSuiteFinished env pg suite done w = Thrown TypeError ?w1"
    using None by (simp add: onTestSuiteFinished_def)
  ultimately show thesis using None by (rule throws)
next
  case (Some a)
  let ?w1 = "emit [EvaluateTally (xunitName (CFG env))] w"
  obtain w2 where w2: "onTestSuiteFinished env pg suite done w = done (if badAsserts a > 0 then 99 else 0) w2"
    and m: "\<exists>m. w2 = console_log m ?w1"
    using Some by (auto simp: onTestSuiteFinished_def Let_def)
  have "quietly w ?w1" by (rule quietly_emit1) simp
  moreover have "quietly ?w1 w2" using m quietly_console_log by auto
  ultimately have "quietly w w2" by (rule quietly_trans)
  then show thesis using Some w2 by (rule calls)
qed

lemma run_tests_cases:
  obtains (throws) w' where "quietly w w'" and "run_tests env c done (pg, w) = Thrown TypeError w'"
      and "\<exists>pg'. evaluate_tally env (xunitName (CFG env)) pg' = None"
  | (calls) w' code where "quietly w w'" and "run_tests env c done (pg, w) = done code w'"
proof -
  note T = throws and C = calls
  let ?w1 = "verbose_log (c_bVerbose c) '' * Injecting the unit test utils... '' w"
  let ?w2 = "(if xunit ?w1 \<noteq> None then verbose_log (c_bVerbose c) '' * Using user-supplied xunit... '' ?w1 else ?w1)"
  let ?w3 = "emit [EvaluateXunit (xunit ?w1) (xunitName (CFG env))] ?w2"
  let ?w4 = "verbose_log (c_bVerbose c) ('' * Starting the tests... '' @ [newline]) ?w3"
  let ?pg1 = "evaluate_xunit env (xunit ?w1) (xunitName (CFG env)) pg"
  obtain pg2 w5 where t: "testRunner_start env (c_testArgs c) (gather (c_feed c)) (?pg1, ?w4) = (pg2, w5)"
    by (cases "testRunner_start env (c_testArgs c) (gather (c_feed c)) (?pg1, ?w4)")
  have q1: "quietly w ?w1" by (rule quietly_verbose_log)
  have "quietly ?w1 ?w2" by (simp add: quietly_refl quietly_verbose_log)
  with q1 have q2: "quietly w ?w2" by (rule quietly_trans)
  have "quietly ?w2 ?w3" by (rule quietly_emit1) simp
  with q2 have q3: "quietly w ?w3" by (rule quietly_trans)
  have "quietly ?w3 ?w4" by (rule quietly_verbose_log)
  with q3 have q4: "quietly w ?w4" by (rule quietly_trans)
  have "quietly ?w4 w5"
    using testRunner_start_quietly [of ?w4 env "c_testArgs c" "gather (c_feed c)" ?pg1] t by simp
  with q4 have q5: "quietly w w5" by (rule quietly_trans)
  have r: "run_tests env c done (pg, w) = onTestSuiteFinished env pg2 (c_suiteId c, length (registeredSuites w5)) done w5"
    using t by (simp add: run_tests_def Let_def)
  show thesis
  proof (cases rule: onTestSuiteFinished_cases [of w5 env pg2 "(c_suiteId c, length (registeredSuites w5))" "done"])
    case (throws w')
    from q5 throws(1) have "quietly w w'" by (rule quietly_trans)
    then show thesis using throws(2,3) r T by auto
  next
    case (calls w' a)
    from q5 calls(1) have "quietly w w'" by (rule quietly_trans)
    then show thesis using calls(3) r C by simp
  qed
qed

lemma open_callback_cases:
  obtains (throws) e w' where "quietly w w'" and "open_callback env c done status (pg, w) = Thrown e w'"
      and "throw_cause env w e"
  | (calls) w' code where "quietly w w'" and "open_callback env c done status (pg, w) = done code w'"
proof -
  note T = throws and C = calls
  let ?w1 = "verbose_log (c_bVerbose c) '' Initializing the test:'' w"
  let ?w2 = "verbose_log (c_bVerbose c) ('' * Page loaded with status '' @ status) ?w1"
  have "quietly w ?w1" "quietly ?w1 ?w2" by (rule quietly_verbose_log)+
  then have q2: "quietly w ?w2" by (rule quietly_trans)
  show thesis
  proof (cases "userScriptPaths ?w2")
    case None
    then have "open_callback env c done status (pg, w) = Thrown UserScriptPathsNotDefined ?w2"
      by (simp add: open_callback_def Let_def)
    moreover have "throw_cause env w UserScriptPathsNotDefined"
      using None quietly_sel(5) [OF q2] by (simp add: throw_cause_def)
    ultimately show thesis using q2 T by blast
  next
    case (Some usPaths)
    have qi: "quietly ?w2 (snd (state_of (inject_userscripts env (c_bVerbose c) usPaths (pg, ?w2))))"
      by (rule inject_userscripts_quietly)
    show thesis
    proof (cases "inject_userscripts env (c_bVerbose c) usPaths (pg, ?w2)")
      case (Thrown e s)
      obtain pg' w' where s: "s = (pg', w')" by (cases s)
      have "quietly ?w2 w'" using qi Thrown s by simp
      with q2 have "quietly w w'" by (rule quietly_trans)
      moreover have "open_callback env c done status (pg, w) = Thrown e w'"
        using Some Thrown s by (simp add: open_callback_def Let_def)
      moreover have "throw_cause env w e"
        using inject_userscripts_thrown [OF Thrown] by (simp add: throw_cause_def)
      ultimately show thesis by (rule T)
    next
      case (Done s)
      obtain pg' w' where s: "s = (pg', w')" by (cases s)
      have "quietly ?w2 w'" using qi Done s by simp
      with q2 have q: "quietly w w'" by (rule quietly_trans)
      have r: "open_callback env c done status (pg, w) = run_tests env c done (pg', w')"
        using Some Done s by (simp add: open_callback_def Let_def)
      show thesis
      proof (cases rule: run_tests_cases [of w' env c "done" pg'])
        case (throws w'')
        from q throws(1) have "quietly w w''" by (rule quietly_trans)
        moreover have "throw_cause env w TypeError" using throws(3) by (simp add: throw_cause_def)
        ultimately show thesis using throws(2) r T by simp
      next
        case (calls w'' code)
        from q calls(1) have "quietly w w''" by (rule quietly_trans)
        then show thesis using calls(2) r C by simp
      qed
    qed
  qed
qed

lemma CFG_debug: "debug (CFG env) = (''--debug'' \<in> set (system_args env))"
  by (simp add: CFG_def parseCommandLineCfg_def Let_def arr_indexOf_gt_iff)

lemma CFG_verbose: "verbose (CFG env) = (''--verbose'' \<in> set (system_args env))"
  by (simp add: CFG_def parseCommandLineCfg_def Let_def arr_indexOf_gt_iff)

lemma gather_eq: "gather feed = feed"
proof -
  have "foldl (\<lambda>pendingTests t. testRunner pendingTests (testName t) (testFn t)) acc feed = acc @ feed" for acc
    by (induction feed arbitrary: acc) (simp_all add: testRunner_def)
  then show ?thesis by (simp add: gather_def)
qed

lemma testRunner_start_emit:
  "snd (testRunner_start env args ts (pg, w)) =
      emit (concat (map2 (\<lambda>t ok. [EvaluateTest (testFn t), ConsoleLog (test_line env ok (testName t))])
                      ts (outcomes env args ts pg))) w"
proof (induction ts arbitrary: pg w)
  case Nil
  show ?case by (simp add: emit_Nil)
next
  case (Cons t ts)
  obtain ok pg1 where e: "evaluate_test env (testFn t) args pg = (ok, pg1)"
    by (cases "evaluate_test env (testFn t) args pg")
  show ?case
    using e Cons.IH [of pg1 "console_log (test_line env ok (testName t)) (emit [EvaluateTest (testFn t)] w)"]
    by (simp add: console_log_def emit_emit)
qed

lemma length_outcomes: "length (outcomes env args ts pg) = length ts"
  by (induction ts arbitrary: pg) (simp_all add: split_beta)

lemma run_exited: "exited w \<noteq> None \<Longrightarrow> run env k w = w"
  by (cases k) simp_all

lemma page_opens_simps:
  "page_opens [] = []" "page_opens (a @ b) = page_opens a @ page_opens b"
  "page_opens (PageOpen u # evs) = u # page_opens evs"
  by (simp_all add: page_opens_def)

lemma pages_created_simps:
  "pages_created [] = 0" "pages_created (a @ b) = pages_created a + pages_created b"
  "pages_created (WebpageCreate # evs) = Suc (pages_created evs)"
  by (simp_all add: pages_created_def)

lemma quiet_page_opens: "quiet evs \<Longrightarrow> page_opens evs = []"
proof (induction evs)
  case Nil
  show ?case by (simp add: page_opens_def)
next
  case (Cons e evs)
  then show ?case by (cases e) (simp_all add: page_opens_def quiet_simps)
qed

lemma quiet_pages_created: "quiet evs \<Longrightarrow> pages_created evs = 0"
proof (induction evs)
  case Nil
  show ?case by (simp add: pages_created_def)
next
  case (Cons e evs)
  then show ?case by (cases e) (simp_all add: pages_created_def quiet_simps)
qed

lemma quietly_out:
  assumes "quietly w w'"
  shows "page_opens (out w') = page_opens (out w)" "pages_created (out w') = pages_created (out w)"
  using assms unfolding quietly_def
  by (auto simp: emit_sel page_opens_simps pages_created_simps quiet_page_opens quiet_pages_created)

lemma quietly_uncaught: "quietly w (emit [Uncaught e] w)"
  by (rule quietly_emit1) simp

lemma startSuite_fields:
  assumes "n < length (registeredSuites w)"
  shows "thrown (startSuite env n w) = None"
    and "registeredSuites (state_of (startSuite env n w)) = registeredSuites w"
    and "exitCodes (state_of (startSuite env n w)) = exitCodes w"
    and "exited (state_of (startSuite env n w)) = exited w"
    and "userScriptPaths (state_of (startSuite env n w)) = userScriptPaths w"
    and "\<exists>c. pending (state_of (startSuite env n w)) = Some (c, webpage_create env)
           \<and> c_suiteId c = n \<and> c_done c = (n, length (registeredSuites w))
           \<and> c_url c = url (registeredSuites w ! n)"
    and "page_opens (out (state_of (startSuite env n w))) = page_opens (out w) @ [url (registeredSuites w ! n)]"
    and "pages_created (out (state_of (startSuite env n w))) = pages_created (out w) + 1"
  using assms
  by (simp_all add: startSuite_def Let_def openAndTest_def getSuiteDoneCb_def console_log_def emit_def
        page_opens_def pages_created_def)

lemma startSuite_registry: "registeredSuites (state_of (startSuite env n w)) = registeredSuites w"
  by (simp add: startSuite_def Let_def openAndTest_def getSuiteDoneCb_def console_log_def emit_def)

lemma suiteDone_registry: "registeredSuites (state_of (suiteDone env cb code w)) = registeredSuites w"
  by (cases cb) (simp add: suiteDone_def Let_def startSuite_registry phantom_exit_def console_log_def emit_def)

lemma uncaught_state_of: "quietly (state_of r) (uncaught r)"
  by (cases r) (simp_all add: quietly_refl quietly_uncaught)

lemma host_load_cases:
  assumes "pending w = Some (c, pg)"
  obtains (throws) e w' where "quietly (w\<lparr>pending := None\<rparr>) w'" and "host_load env w = w'"
      and "throw_cause env w e"
  | (calls) w' code where "quietly (w\<lparr>pending := None\<rparr>) w'"
      and "host_load env w = uncaught (suiteDone env (c_done c) code w')"
proof -
  note T = throws and C = calls
  let ?w0 = "w\<lparr>pending := None\<rparr>"
  let ?r = "onInitialized env c (pg, ?w0)"
  obtain pg1 w1 where s: "state_of ?r = (pg1, w1)" by (cases "state_of ?r")
  let ?w2 = "(case thrown ?r of None \<Rightarrow> w1 | Some e \<Rightarrow> emit [Uncaught e] w1)"
  obtain status pg2 where n: "navigate env (c_url c) pg1 = (status, pg2)"
    by (cases "navigate env (c_url c) pg1")
  have "quietly ?w0 w1" using onInitialized_quietly [of ?w0 env c pg] s by simp
  moreover have "quietly w1 ?w2" by (simp add: quietly_refl quietly_uncaught split: option.split)
  ultimately have q2: "quietly ?w0 ?w2" by (rule quietly_trans)
  have h: "host_load env w = uncaught (open_callback env c (suiteDone env (c_done c)) status (pg2, ?w2))"
    using assms s n by (simp add: host_load_def Let_def)
  show thesis
  proof (cases rule: open_callback_cases [of ?w2 env c "suiteDone env (c_done c)" status pg2])
    case (throws e w')
    have "quietly w' (emit [Uncaught e] w')" by (rule quietly_uncaught)
    with throws(1) have "quietly ?w2 (emit [Uncaught e] w')" by (rule quietly_trans)
    with q2 have "quietly ?w0 (emit [Uncaught e] w')" by (rule quietly_trans)
    moreover have "host_load env w = emit [Uncaught e] w'" using h throws(2) by simp
    moreover have "throw_cause env w e"
      using throws(3) quietly_sel(5) [OF q2] by (simp add: throw_cause_def)
    ultimately show thesis by (rule T)
  next
    case (calls w' code)
    from q2 calls(1) have "quietly ?w0 w'" by (rule quietly_trans)
    moreover have "host_load env w = uncaught (suiteDone env (c_done c) code w')"
      using h calls(2) by simp
    ultimately show thesis by (rule C)
  qed
qed

lemma host_load_registry: "registeredSuites (host_load env w) = registeredSuites w"
proof (cases "pending w")
  case None
  then show ?thesis by (simp add: host_load_def)
next
  case (Some p)
  obtain c pg where p: "p = (c, pg)" by (cases p)
  have pw: "pending w = Some (c, pg)" using Some p by simp
  from pw show ?thesis
  proof (cases rule: host_load_cases [where env = env])
    case (throws e w')
    then show ?thesis using quietly_sel(6) [OF throws(1)] by simp
  next
    case (calls w' code)
    have "registeredSuites (uncaught (suiteDone env (c_done c) code w'))
            = registeredSuites (state_of (suiteDone env (c_done c) code w'))"
      using quietly_sel(6) [OF uncaught_state_of] by blast
    then show ?thesis using calls(2) quietly_sel(6) [OF calls(1)] by (simp add: suiteDone_registry)
  qed
qed

lemma run_registry: "registeredSuites (run env k w) = registeredSuites w"
  by (induction k arbitrary: w) (simp_all add: host_load_registry)

lemma start_registry: "registeredSuites (state_of (start env w)) = registeredSuites w"
  by (simp add: start_def startSuite_registry phantom_exit_def console_error_def emit_def)

lemma suiteDone_next:
  assumes "n + 1 < nSuites"
  shows "suiteDone env (n, nSuites) code w = startSuite env (n + 1) (w\<lparr>exitCodes := exitCodes w @ [code]\<rparr>)"
  using assms by (simp add: suiteDone_def Let_def)

lemma suiteDone_last:
  assumes "\<not> n + 1 < nSuites"
  shows "\<exists>line. suiteDone env (n, nSuites) code w =
           Done (phantom_exit (if 99 \<in> set (exitCodes w @ [code]) then 99 else 0)
                   (console_log line (w\<lparr>exitCodes := exitCodes w @ [code]\<rparr>)))"
  using assms by (auto simp: suiteDone_def Let_def arr_indexOf_gt_iff)

lemma run_inv_start:
  assumes "registeredSuites w0 \<noteq> []" and "exited w0 = None"
  shows "run_inv w0 (state_of (start env w0))"
proof -
  have n: "0 < length (registeredSuites w0)" using assms(1) by simp
  have s: "start env w0 = startSuite env 0 w0" using n by (simp add: start_def)
  have t: "take (Suc 0) (registeredSuites w0) = [registeredSuites w0 ! 0]"
    using n by (cases "registeredSuites w0") simp_all
  from startSuite_fields(6) [OF n, of env] obtain c where
    c: "pending (state_of (startSuite env 0 w0)) = Some (c, webpage_create env)"
       "c_suiteId c = 0" "c_done c = (0, length (registeredSuites w0))" by blast
  show ?thesis
    unfolding run_inv_def s
    apply (rule exI [of _ 1])
    using n assms(2) c t startSuite_fields(2,3,4,7,8) [OF n, of env]
    by (simp add: Suc_le_eq)
qed

lemma run_inv_host_load:
  assumes "run_inv w0 w"
  shows "run_inv w0 (host_load env w)"
proof (cases "pending w")
  case None
  then show ?thesis using assms by (simp add: host_load_def)
next
  case (Some p)
  obtain c pg where pw: "pending w = Some (c, pg)" using Some by (cases p) simp
  let ?N = "length (registeredSuites w0)"
  from assms pw obtain m where m: "1 \<le> m" "m \<le> ?N"
    and reg: "registeredSuites w = registeredSuites w0"
    and po: "page_opens (out w) = page_opens (out w0) @ map url (take m (registeredSuites w0))"
    and pc: "pages_created (out w) = pages_created (out w0) + m"
    and tk: "take (length (exitCodes w0)) (exitCodes w) = exitCodes w0"
    and cd: "c_done c = (m - 1, ?N)"
    and len: "length (exitCodes w) = length (exitCodes w0) + (m - 1)"
    and ex: "exited w = None"
    unfolding run_inv_def by auto
  from pw show ?thesis
  proof (cases rule: host_load_cases [where env = env])
    case (throws e w')
    note q = quietly_sel [OF throws(1)] quietly_out [OF throws(1)]
    show ?thesis
      unfolding run_inv_def throws(2)
      apply (rule exI [of _ m])
      using m reg po pc tk len ex q by simp
  next
    case (calls w' code)
    note q = quietly_sel [OF calls(1)] quietly_out [OF calls(1)]
    let ?w1 = "w'\<lparr>exitCodes := exitCodes w' @ [code]\<rparr>"
    show ?thesis
    proof (cases "m < ?N")
      case True
      then have lt: "(m - 1) + 1 < ?N" using m by simp
      have mm: "m - 1 + 1 = m" using m by simp
      have n1: "m < length (registeredSuites ?w1)" using True q reg by simp
      have h: "host_load env w = state_of (startSuite env m ?w1)"
        using calls(2) cd suiteDone_next [OF lt, of env code w'] startSuite_fields(1) [OF n1, of env] mm
        by (cases "startSuite env m ?w1") simp_all
      from startSuite_fields(6) [OF n1, of env] obtain c' where
        c': "pending (state_of (startSuite env m ?w1)) = Some (c', webpage_create env)"
            "c_suiteId c' = m" "c_done c' = (m, length (registeredSuites ?w1))" by blast
      have tk': "take (Suc m) (registeredSuites w0) = take m (registeredSuites w0) @ [registeredSuites w0 ! m]"
        using True by (simp add: take_Suc_conv_app_nth)
      show ?thesis
        unfolding run_inv_def h
        apply (rule exI [of _ "Suc m"])
        using True m reg po pc tk len ex q c' tk' startSuite_fields(2,3,4,7,8) [OF n1, of env]
        by simp
    next
      case False
      then have mN: "m = ?N" using m by simp
      have nl: "\<not> (m - 1) + 1 < ?N" using m False by simp
      from suiteDone_last [OF nl, of env code w'] obtain line where
        sd: "suiteDone env (m - 1, ?N) code w' =
           Done (phantom_exit (if 99 \<in> set (exitCodes w' @ [code]) then 99 else 0)
                   (console_log line ?w1))" by blast
      have h: "host_load env w = phantom_exit (if 99 \<in> set (exitCodes w' @ [code]) then 99 else 0)
                   (console_log line ?w1)"
        using calls(2) cd sd by simp
      show ?thesis
        unfolding run_inv_def h
        apply (rule exI [of _ m])
        using mN m reg po pc tk len ex q
        by (simp add: phantom_exit_def console_log_def emit_def page_opens_simps pages_created_simps
              page_opens_def pages_created_def)
    qed
  qed
qed

lemma run_inv_run:
  assumes "run_inv w0 w"
  shows "run_inv w0 (run env k w)"
  using assms by (induction k arbitrary: w) (simp_all add: run_inv_host_load)

lemma startSuite_userScriptPaths: "userScriptPaths (state_of (startSuite env n w)) = userScriptPaths w"
  by (simp add: startSuite_def Let_def openAndTest_def getSuiteDoneCb_def console_log_def emit_def)

lemma suiteDone_userScriptPaths: "userScriptPaths (state_of (suiteDone env cb code w)) = userScriptPaths w"
  by (cases cb) (simp add: suiteDone_def Let_def startSuite_userScriptPaths phantom_exit_def console_log_def emit_def)

lemma host_load_userScriptPaths: "userScriptPaths (host_load env w) = userScriptPaths w"
proof (cases "pending w")
  case None
  then show ?thesis by (simp add: host_load_def)
next
  case (Some p)
  obtain c pg where pw: "pending w = Some (c, pg)" using Some by (cases p) simp
  from pw show ?thesis
  proof (cases rule: host_load_cases [where env = env])
    case (throws e w')
    then show ?thesis using quietly_sel(5) [OF throws(1)] by simp
  next
    case (calls w' code)
    have "userScriptPaths (uncaught (suiteDone env (c_done c) code w'))
            = userScriptPaths (state_of (suiteDone env (c_done c) code w'))"
      using quietly_sel(5) [OF uncaught_state_of] by blast
    then show ?thesis using calls(2) quietly_sel(5) [OF calls(1)] by (simp add: suiteDone_userScriptPaths)
  qed
qed

text \<open>Progress: when nothing can throw, a pending page load either opens the next page or exits.\<close>

lemma host_load_progress:
  assumes inv: "run_inv w0 w" and pw: "pending w = Some (c, pg)"
    and nt: "\<And>e. \<not> throw_cause env w e"
  shows "exited (host_load env w) \<noteq> None
     \<or> (pending (host_load env w) \<noteq> None \<and> exited (host_load env w) = None
          \<and> pages_created (out (host_load env w)) = Suc (pages_created (out w)))"
proof -
  let ?N = "length (registeredSuites w0)"
  from inv pw obtain m where m: "1 \<le> m" "m \<le> ?N"
    and reg: "registeredSuites w = registeredSuites w0"
    and cd: "c_done c = (m - 1, ?N)"
    and ex: "exited w = None"
    unfolding run_inv_def by auto
  from pw show ?thesis
  proof (cases rule: host_load_cases [where env = env])
    case (throws e w')
    then show ?thesis using nt by blast
  next
    case (calls w' code)
    note q = quietly_sel [OF calls(1)] quietly_out [OF calls(1)]
    let ?w1 = "w'\<lparr>exitCodes := exitCodes w' @ [code]\<rparr>"
    show ?thesis
    proof (cases "m < ?N")
      case True
      then have lt: "(m - 1) + 1 < ?N" using m by simp
      have mm: "m - 1 + 1 = m" using m by simp
      have n1: "m < length (registeredSuites ?w1)" using True q reg by simp
      have h: "host_load env w = state_of (startSuite env m ?w1)"
        using calls(2) cd suiteDone_next [OF lt, of env code w'] startSuite_fields(1) [OF n1, of env] mm
        by (cases "startSuite env m ?w1") simp_all
      from startSuite_fields(6) [OF n1, of env] obtain c' where
        c': "pending (state_of (startSuite env m ?w1)) = Some (c', webpage_create env)" by blast
      show ?thesis
        unfolding h using c' ex q startSuite_fields(4,8) [OF n1, of env] by simp
    next
      case False
      have nl: "\<not> (m - 1) + 1 < ?N" using m False by simp
      from suiteDone_last [OF nl, of env code w'] obtain line where
        sd: "suiteDone env (m - 1, ?N) code w' =
           Done (phantom_exit (if 99 \<in> set (exitCodes w' @ [code]) then 99 else 0)
                   (console_log line ?w1))" by blast
      have "exited (host_load env w) \<noteq> None"
        using calls(2) cd sd by (simp add: phantom_exit_def)
      then show ?thesis by blast
    qed
  qed
qed

lemma throw_cause_cong:
  "userScriptPaths w' = userScriptPaths w \<Longrightarrow> throw_cause env w' e = throw_cause env w e"
  by (simp add: throw_cause_def)

lemma run_progress:
  assumes "run_inv w0 w" and "pending w \<noteq> None" and "exited w = None"
    and "\<And>e. \<not> throw_cause env w e"
  shows "exited (run env k w) \<noteq> None
     \<or> pages_created (out (run env k w)) = pages_created (out w) + k"
  using assms
proof (induction k arbitrary: w)
  case 0
  then show ?case by simp
next
  case (Suc k)
  obtain c pg where pw: "pending w = Some (c, pg)" using Suc.prems(2) by (cases "pending w") auto
  let ?w' = "host_load env w"
  have inv': "run_inv w0 ?w'" using Suc.prems(1) by (rule run_inv_host_load)
  have nt': "\<And>e. \<not> throw_cause env ?w' e"
    using Suc.prems(4) throw_cause_cong [OF host_load_userScriptPaths] by blast
  from host_load_progress [OF Suc.prems(1) pw Suc.prems(4)]
  show ?case
  proof
    assume "exited ?w' \<noteq> None"
    then show ?thesis using Suc.prems(3) by (simp add: run_exited)
  next
    assume a: "pending ?w' \<noteq> None \<and> exited ?w' = None
                 \<and> pages_created (out ?w') = Suc (pages_created (out w))"
    then have "exited (run env k ?w') \<noteq> None
         \<or> pages_created (out (run env k ?w')) = pages_created (out ?w') + k"
      using Suc.IH [OF inv' _ _ nt'] by blast
    then show ?thesis using a Suc.prems(3) by auto
  qed
qed

lemma run_exits:
  assumes "registeredSuites w0 \<noteq> []" and "exited w0 = None"
    and "\<And>e. \<not> throw_cause env w0 e"
    and "length (registeredSuites w0) \<le> k"
  shows "exited (run env k (state_of (start env w0))) \<noteq> None"
proof (rule ccontr)
  assume "\<not> exited (run env k (state_of (start env w0))) \<noteq> None"
  then have ne: "exited (run env k (state_of (start env w0))) = None" by simp
  let ?w1 = "state_of (start env w0)"
  have n: "0 < length (registeredSuites w0)" using assms(1) by simp
  have s: "start env w0 = startSuite env 0 w0" using n by (simp add: start_def)
  have inv1: "run_inv w0 ?w1" using assms(1,2) by (rule run_inv_start)
  have p1: "pending ?w1 \<noteq> None" using startSuite_fields(6) [OF n, of env] s by auto
  have e1: "exited ?w1 = None" using startSuite_fields(4) [OF n, of env] s assms(2) by simp
  have pc1: "pages_created (out ?w1) = pages_created (out w0) + 1"
    using startSuite_fields(8) [OF n, of env] s by simp
  have nt1: "\<And>e. \<not> throw_cause env ?w1 e"
    using assms(3) startSuite_fields(5) [OF n, of env] s by (simp add: throw_cause_def)
  from run_progress [OF inv1 p1 e1 nt1, of k] ne
  have pk: "pages_created (out (run env k ?w1)) = pages_created (out w0) + 1 + k" using pc1 by simp
  have "run_inv w0 (run env k ?w1)" using inv1 by (rule run_inv_run)
  then obtain m where "m \<le> length (registeredSuites w0)"
    and "pages_created (out (run env k ?w1)) = pages_created (out w0) + m"
    unfolding run_inv_def by blast
  then show False using pk assms(4) by simp
qed

lemma run_Suc_right:
  "run env (Suc k) w = (let w' = run env k w in if exited w' \<noteq> None then w' else host_load env w')"
proof (induction k arbitrary: w)
  case 0
  show ?case by simp
next
  case (Suc k)
  have "run env (Suc (Suc k)) w = (if exited w \<noteq> None then w else run env (Suc k) (host_load env w))"
    by simp
  also have "\<dots> = (if exited w \<noteq> None then w
      else (let w' = run env k (host_load env w) in if exited w' \<noteq> None then w' else host_load env w'))"
    using Suc.IH [of "host_load env w"] by simp
  also have "\<dots> = (let w' = run env (Suc k) w in if exited w' \<noteq> None then w' else host_load env w')"
    by (auto simp: Let_def)
  finally show ?case .
qed

lemma startSuite_exitCodes: "exitCodes (state_of (startSuite env n w)) = exitCodes w"
  by (simp add: startSuite_def Let_def openAndTest_def getSuiteDoneCb_def console_log_def emit_def)

lemma suiteDone_exitCodes: "exitCodes (state_of (suiteDone env cb code w)) = exitCodes w @ [code]"
  by (cases cb) (simp add: suiteDone_def Let_def startSuite_exitCodes phantom_exit_def console_log_def emit_def)

lemma run_idle: "pending w = None \<Longrightarrow> run env k w = w"
  by (induction k) (simp_all add: host_load_def)

lemmas model_defs = sample_host_def suite_a_def suite_b_def w_poly_def w_ab_def w_user_def initial_def
  registerSuite_def userScript_def polyfill_def start_def startSuite_def openAndTest_def
  getSuiteDoneCb_def host_load_def onInitialized_def open_callback_def run_tests_def
  onTestSuiteFinished_def suiteDone_def phantom_exit_def console_log_def console_error_def
  verbose_log_def emit_def gather_def testRunner_def test_line_def paint_def CFG_def
  parseCommandLineCfg_def Let_def br_def newline_def string_of_int_def string_of_nat.simps digit_char_def


section \<open>The claims\<close>

subsection \<open>C1: the exit code of a suite\<close>

text \<open>
  Claim C1. Whenever the page holds a tally, \<open>onTestSuiteFinished\<close> reads it once, prints
  one summary line and calls \<open>done\<close> with 99 if and only if the tally's bad-assert count
  is greater than 0, and with 0 otherwise; this holds for every tally, \<open>(0, 0)\<close> included.
\<close>

theorem onTestSuiteFinished_exit_code:
  assumes "evaluate_tally env (xunitName (CFG env)) pg = Some a"
  shows "\<exists>code line.
           onTestSuiteFinished env pg suite done w
             = done code (emit [EvaluateTally (xunitName (CFG env)), ConsoleLog line] w)
           \<and> (code = 99 \<longleftrightarrow> badAsserts a > 0) \<and> (code = 0 \<longleftrightarrow> \<not> badAsserts a > 0)"
  using assms unfolding onTestSuiteFinished_def Let_def console_log_def emit_emit
  apply (simp only: option.case append.simps)
  apply (intro exI conjI)
    apply (rule refl)
   apply simp_all
  done

theorem onTestSuiteFinished_exit_code_witness:
  "evaluate_tally sample_host (xunitName (CFG sample_host)) (Some \<lparr> goodAsserts = 0, badAsserts = 0 \<rparr>)
     = Some \<lparr> goodAsserts = 0, badAsserts = 0 \<rparr>
   \<and> (\<exists>code line.
         onTestSuiteFinished sample_host (Some \<lparr> goodAsserts = 0, badAsserts = 0 \<rparr>) (0, 1)
             (\<lambda>c w. Done (w\<lparr>exitCodes := [c]\<rparr>)) (initial sample_host)
           = Done ((emit [EvaluateTally (xunitName (CFG sample_host)), ConsoleLog line]
                     (initial sample_host))\<lparr>exitCodes := [code]\<rparr>)
         \<and> code = 0)"
proof -
  have h: "evaluate_tally sample_host (xunitName (CFG sample_host)) (Some \<lparr> goodAsserts = 0, badAsserts = 0 \<rparr>)
             = Some \<lparr> goodAsserts = 0, badAsserts = 0 \<rparr>"
    by (simp add: sample_host_def)
  from onTestSuiteFinished_exit_code [OF h, of "(0, 1)" "\<lambda>c w. Done (w\<lparr>exitCodes := [c]\<rparr>)" "initial sample_host"]
  obtain code line where
    "onTestSuiteFinished sample_host (Some \<lparr> goodAsserts = 0, badAsserts = 0 \<rparr>) (0, 1)
         (\<lambda>c w. Done (w\<lparr>exitCodes := [c]\<rparr>)) (initial sample_host)
       = Done ((emit [EvaluateTally (xunitName (CFG sample_host)), ConsoleLog line]
                 (initial sample_host))\<lparr>exitCodes := [code]\<rparr>)"
    and "code = 0"
    by auto
  then show ?thesis using h by blast
qed

subsection \<open>C2: the exit status of the process\<close>

text \<open>
  Claim C2. In a run that \<open>start\<close> began with at least one registered suite, whenever the
  process has exited, its status is 99 if and only if one of the recorded exit codes is
  99, and 0 if and only if none is; by then every registered suite has recorded its
  code. The process does exit once the host has completed one page load per suite,
  provided nothing throws (the list of user scripts is defined, every injection
  succeeds and every page has a tally).
\<close>

theorem final_exit_status:
  assumes "registeredSuites w0 \<noteq> []" and "exited w0 = None"
  shows "(\<forall>status. exited (run env k (state_of (start env w0))) = Some status \<longrightarrow>
            (status = 99 \<longleftrightarrow> 99 \<in> set (exitCodes (run env k (state_of (start env w0)))))
          \<and> (status = 0 \<longleftrightarrow> 99 \<notin> set (exitCodes (run env k (state_of (start env w0)))))
          \<and> length (exitCodes (run env k (state_of (start env w0))))
               = length (exitCodes w0) + length (registeredSuites w0))
     \<and> ((\<forall>e. \<not> throw_cause env w0 e) \<and> length (registeredSuites w0) \<le> k \<longrightarrow>
            exited (run env k (state_of (start env w0))) \<noteq> None)"
proof -
  let ?w = "run env k (state_of (start env w0))"
  have "run_inv w0 ?w" using assms by (intro run_inv_run run_inv_start)
  then have safe: "\<forall>status. exited ?w = Some status \<longrightarrow>
      (status = 99 \<longleftrightarrow> 99 \<in> set (exitCodes ?w)) \<and> (status = 0 \<longleftrightarrow> 99 \<notin> set (exitCodes ?w))
      \<and> length (exitCodes ?w) = length (exitCodes w0) + length (registeredSuites w0)"
    unfolding run_inv_def by (auto split: option.splits prod.splits if_splits)
  have "exited ?w \<noteq> None" if "\<forall>e. \<not> throw_cause env w0 e" and "length (registeredSuites w0) \<le> k"
    using run_exits [OF assms, of env k] that by blast
  with safe show ?thesis by blast
qed

theorem final_exit_status_witness:
  "registeredSuites w_ab \<noteq> [] \<and> exited w_ab = None
   \<and> exited (run sample_host 2 (state_of (start sample_host w_ab))) = Some 99
   \<and> 99 \<in> set (exitCodes (run sample_host 2 (state_of (start sample_host w_ab))))
   \<and> length (exitCodes (run sample_host 2 (state_of (start sample_host w_ab)))) = 2"
proof -
  have h1: "registeredSuites w_ab \<noteq> []" and h2: "exited w_ab = None"
    and l: "length (registeredSuites w_ab) = 2" and c0: "exitCodes w_ab = []"
    by (simp_all add: w_ab_def registerSuite_def userScript_def initial_def)
  have e: "exited (run sample_host 2 (state_of (start sample_host w_ab))) = Some 99"
    by (simp add: model_defs numeral_2_eq_2)
  show ?thesis
    using final_exit_status [OF h1 h2, of sample_host 2] h1 h2 e l c0 by simp
qed

subsection \<open>C3: no suite registered\<close>

text \<open>
  Claim C3. If no suite is registered when \<open>start\<close> is called, the process prints an
  error and exits with status 98, and no page is ever created: however many page loads
  the host would complete afterwards, the output stays the same.
\<close>

theorem start_without_suites:
  assumes "registeredSuites w = []"
  shows "start env w = Done (phantom_exit 98 (console_error ''No suites registered!'' w))
     \<and> out (run env k (state_of (start env w))) = out w @ [ConsoleError ''No suites registered!'', PhantomExit 98]
     \<and> exited (run env k (state_of (start env w))) = Some 98
     \<and> pages_created (out (run env k (state_of (start env w)))) = pages_created (out w)"
proof -
  have s: "start env w = Done (phantom_exit 98 (console_error ''No suites registered!'' w))"
    using assms by (simp add: start_def)
  have "exited (phantom_exit 98 (console_error ''No suites registered!'' w)) \<noteq> None"
    by (simp add: phantom_exit_def)
  then have r: "run env k (state_of (start env w)) = phantom_exit 98 (console_error ''No suites registered!'' w)"
    using s by (simp add: run_exited)
  show ?thesis unfolding r using s
    by (simp add: phantom_exit_def console_error_def emit_def pages_created_def)
qed

theorem start_without_suites_witness:
  "registeredSuites (initial sample_host) = []
   \<and> out (run sample_host 3 (state_of (start sample_host (initial sample_host))))
        = [ConsoleError ''No suites registered!'', PhantomExit 98]
   \<and> exited (run sample_host 3 (state_of (start sample_host (initial sample_host)))) = Some 98"
proof -
  have h: "registeredSuites (initial sample_host :: (nat, asserts option) world) = []"
    by (simp add: initial_def)
  have o: "out (initial sample_host :: (nat, asserts option) world) = []"
    by (simp add: initial_def sample_host_def parseCommandLineCfg_def Let_def)
  show ?thesis using h o start_without_suites [OF h, of sample_host 3, THEN conjunct2] by simp
qed

subsection \<open>C4: page errors that carry the assertion marker\<close>




subsection \<open>C5: page errors without the marker\<close>

text \<open>
  Claim C5. For a page error whose message does not contain the marker: with debug mode
  off nothing is printed; with debug mode on and an entry of the ignore list contained
  in the message nothing is printed; otherwise one text is printed, the message behind
  \<^verbatim>\<open>PHANTOM ERROR: \<close> followed by one line per trace frame.
\<close>

theorem onError_other:
  assumes "\<not> sublist magicString msg"
  shows "onError bDebug ign msg trace =
     (if \<not> bDebug then []
      else if (case ign of None \<Rightarrow> False | Some l \<Rightarrow> list_ex (\<lambda>e. sublist e msg) l) then []
      else [join [newline] ((''PHANTOM ERROR: '' @ msg) #
              (case trace of None \<Rightarrow> [] | Some tr \<Rightarrow> if tr = [] then [] else map frame_line tr @ ['''']))])"
  using assms
  by (auto simp: onError_def Let_def indexOf_nonneg_iff indexOf_gt_iff list_ex_iff split: option.splits)

theorem onError_other_witness:
  "\<not> sublist magicString ''Error: boom''
   \<and> onError False None ''Error: boom'' None = []
   \<and> onError True (Some [''boo'']) ''Error: boom'' None = []
   \<and> onError True (Some [''quiet'']) ''Error: boom''
        (Some [\<lparr> t_file = Some ''a.js'', t_sourceURL = None, t_line = 12, t_function = Some ''f'' \<rparr>])
      = [''PHANTOM ERROR: Error: boom\<newline> -> a.js: 12 (in function f)\<newline>'']"
proof -
  have h: "\<not> sublist magicString ''Error: boom''"
    by (simp add: magicString_def flip: indexOf_nonneg_iff)
  have s1: "sublist ''boo'' ''Error: boom''" and s2: "\<not> sublist ''quiet'' ''Error: boom''"
    by (simp_all flip: indexOf_nonneg_iff)
  show ?thesis
    using h s1 s2 onError_other [OF h, of False None None]
      onError_other [OF h, of True "Some [''boo'']" None]
      onError_other [OF h, of True "Some [''quiet'']"
        "Some [\<lparr> t_file = Some ''a.js'', t_sourceURL = None, t_line = 12, t_function = Some ''f'' \<rparr>]"]
    by (simp add: frame_line_def js_str_def js_or_def truthy_def string_of_int_def
          string_of_nat.simps digit_char_def newline_def)
qed

subsection \<open>C6: the test queue\<close>

text \<open>
  Claim C6. Whatever tests the gathering function declares, draining the queue evaluates
  their bodies in the order of declaration, each followed by one line with OK or FAIL
  and the test's name; every declared test is evaluated whatever the earlier ones
  returned, and nothing else about the process changes.
\<close>

theorem tests_run_in_declaration_order:
  "snd (testRunner_start env args (gather feed) (pg, w))
     = emit (concat (map2 (\<lambda>t ok. [EvaluateTest (testFn t), ConsoleLog (test_line env ok (testName t))])
                      feed (outcomes env args feed pg))) w
   \<and> length (outcomes env args feed pg) = length feed"
  by (simp add: testRunner_start_emit gather_eq length_outcomes)

theorem tests_run_in_declaration_order_witness:
  "out (snd (testRunner_start sample_host [] (gather (feedRunnerWithTests suite_b))
               (Some \<lparr> goodAsserts = 0, badAsserts = 0 \<rparr>, initial sample_host)))
     = [EvaluateTest 1, ConsoleLog '' [FAIL] fails'', EvaluateTest 0, ConsoleLog '' [ OK ] passes'']"
  using tests_run_in_declaration_order
          [of sample_host "[]" "feedRunnerWithTests suite_b" "Some \<lparr> goodAsserts = 0, badAsserts = 0 \<rparr>"
              "initial sample_host"]
  by (simp add: suite_b_def sample_host_def initial_def emit_def test_line_def paint_def CFG_def
        parseCommandLineCfg_def Let_def)

subsection \<open>C7: registering a suite\<close>

text \<open>
  Claim C7 says that \<open>registerSuite\<close> appends to the registry and that it fails with a
  configuration error once \<open>start\<close> has been called. The module keeps no record of having
  been started and \<open>registerSuite\<close> has no check: called while the first page is still
  loading, it returns normally and the registry holds the late suite.
\<close>

theorem registerSuite_after_start_counterexample:
  "pending (state_of (start sample_host (state_of (registerSuite suite_a (initial sample_host))))) \<noteq> None
   \<and> thrown (registerSuite suite_b
        (state_of (start sample_host (state_of (registerSuite suite_a (initial sample_host)))))) = None
   \<and> registeredSuites (state_of (registerSuite suite_b
        (state_of (start sample_host (state_of (registerSuite suite_a (initial sample_host)))))))
       = [suite_a, suite_b]"
  by (simp add: registerSuite_def start_def startSuite_def openAndTest_def initial_def Let_def
        console_log_def emit_def)

text \<open>
  Claim C7, amended. \<open>registerSuite\<close> appends the suite to the registry and returns, in
  every state: before \<open>start\<close>, and at any point of the run that \<open>start\<close> began, where the
  registry is the one \<open>start\<close> found plus the late suite.
\<close>

theorem registerSuite_appends:
  "registerSuite args w = Done (w\<lparr>registeredSuites := registeredSuites w @ [args]\<rparr>)
   \<and> registerSuite args (run env k (state_of (start env w)))
       = Done ((run env k (state_of (start env w)))\<lparr>registeredSuites := registeredSuites w @ [args]\<rparr>)"
  by (simp add: registerSuite_def run_registry start_registry)

subsection \<open>C8: one suite after the other\<close>

text \<open>
  Claim C8. In a run with at least one registered suite, after any number \<open>k\<close> of
  completed page loads the pages opened so far are those of the first \<open>m\<close> registered
  suites, in registration order, one page per suite, and at least \<open>m - 1\<close> exit codes have
  been recorded since the start: a page is created only after the continuations of all
  earlier suites have run. While a page is pending it is the page of suite \<open>m - 1\<close>, and the
  next completed load either throws, leaving everything but the output as it is, or
  calls the continuation of that suite. The continuation of suite \<open>n\<close> first appends the
  exit code and then starts suite \<open>n + 1\<close> if there is one, and otherwise prints the
  summary and exits.
\<close>

theorem suites_run_in_registration_order:
  assumes "registeredSuites w0 \<noteq> []" and "exited w0 = None"
  shows "(\<exists>m. 1 \<le> m \<and> m \<le> length (registeredSuites w0)
            \<and> page_opens (out (run env k (state_of (start env w0))))
                 = page_opens (out w0) @ map url (take m (registeredSuites w0))
            \<and> pages_created (out (run env k (state_of (start env w0)))) = pages_created (out w0) + m
            \<and> length (exitCodes w0) + (m - 1) \<le> length (exitCodes (run env k (state_of (start env w0))))
            \<and> length (exitCodes (run env k (state_of (start env w0)))) \<le> length (exitCodes w0) + m
            \<and> (\<forall>c pg. pending (run env k (state_of (start env w0))) = Some (c, pg) \<longrightarrow>
                  c_suiteId c = m - 1 \<and> c_done c = (m - 1, length (registeredSuites w0))
                  \<and> length (exitCodes (run env k (state_of (start env w0)))) = length (exitCodes w0) + (m - 1)
                  \<and> (\<exists>w'. quietly ((run env k (state_of (start env w0)))\<lparr>pending := None\<rparr>) w'
                        \<and> (run env (Suc k) (state_of (start env w0)) = w'
                            \<or> (\<exists>code. run env (Suc k) (state_of (start env w0))
                                          = uncaught (suiteDone env (c_done c) code w'))))))
     \<and> exitCodes (state_of (suiteDone env (n, nSuites) code w)) = exitCodes w @ [code]
     \<and> (n + 1 < nSuites \<longrightarrow>
           suiteDone env (n, nSuites) code w
             = startSuite env (n + 1) (w\<lparr>exitCodes := exitCodes w @ [code]\<rparr>))
     \<and> (\<not> n + 1 < nSuites \<longrightarrow>
           (\<exists>line. suiteDone env (n, nSuites) code w
              = Done (phantom_exit (if 99 \<in> set (exitCodes w @ [code]) then 99 else 0)
                       (console_log line (w\<lparr>exitCodes := exitCodes w @ [code]\<rparr>)))))"
proof -
  let ?w = "run env k (state_of (start env w0))"
  have inv: "run_inv w0 ?w" using assms by (intro run_inv_run run_inv_start)
  then obtain m where m: "1 \<le> m" "m \<le> length (registeredSuites w0)"
    and po: "page_opens (out ?w) = page_opens (out w0) @ map url (take m (registeredSuites w0))"
    and pc: "pages_created (out ?w) = pages_created (out w0) + m"
    and rest: "(case pending ?w of
              Some (c, pg) \<Rightarrow>
                c_suiteId c = m - 1 \<and> c_done c = (m - 1, length (registeredSuites w0))
                \<and> length (exitCodes ?w) = length (exitCodes w0) + (m - 1) \<and> exited ?w = None
            | None \<Rightarrow>
                (case exited ?w of
                   None \<Rightarrow> length (exitCodes ?w) = length (exitCodes w0) + (m - 1)
                 | Some st \<Rightarrow>
                     m = length (registeredSuites w0)
                     \<and> length (exitCodes ?w) = length (exitCodes w0) + m
                     \<and> st = (if 99 \<in> set (exitCodes ?w) then 99 else 0)))"
    unfolding run_inv_def by blast
  have lo: "length (exitCodes w0) + (m - 1) \<le> length (exitCodes ?w)"
    and hi: "length (exitCodes ?w) \<le> length (exitCodes w0) + m"
    using rest by (auto split: option.splits)
  have pend: "c_suiteId c = m - 1 \<and> c_done c = (m - 1, length (registeredSuites w0))
        \<and> length (exitCodes ?w) = length (exitCodes w0) + (m - 1)
        \<and> (\<exists>w'. quietly (?w\<lparr>pending := None\<rparr>) w'
              \<and> (run env (Suc k) (state_of (start env w0)) = w'
                  \<or> (\<exists>code. run env (Suc k) (state_of (start env w0))
                                = uncaught (suiteDone env (c_done c) code w'))))"
    if pw: "pending ?w = Some (c, pg)" for c pg
  proof -
    have f: "c_suiteId c = m - 1" "c_done c = (m - 1, length (registeredSuites w0))"
      "length (exitCodes ?w) = length (exitCodes w0) + (m - 1)" "exited ?w = None"
      using rest pw by simp_all
    have r: "run env (Suc k) (state_of (start env w0)) = host_load env ?w"
      using f(4) by (simp only: run_Suc_right Let_def) simp
    from pw have "\<exists>w'. quietly (?w\<lparr>pending := None\<rparr>) w'
              \<and> (host_load env ?w = w' \<or> (\<exists>code. host_load env ?w = uncaught (suiteDone env (c_done c) code w')))"
    proof (cases rule: host_load_cases [where env = env])
      case (throws e w')
      then show ?thesis by blast
    next
      case (calls w' code)
      then show ?thesis by blast
    qed
    then show ?thesis using f(1,2,3) unfolding r by blast
  qed
  have sd1: "exitCodes (state_of (suiteDone env (n, nSuites) code w)) = exitCodes w @ [code]"
    by (rule suiteDone_exitCodes)
  have sd2: "n + 1 < nSuites \<longrightarrow>
           suiteDone env (n, nSuites) code w
             = startSuite env (n + 1) (w\<lparr>exitCodes := exitCodes w @ [code]\<rparr>)"
    using suiteDone_next [of n nSuites env code w] by blast
  have sd3: "\<not> n + 1 < nSuites \<longrightarrow>
           (\<exists>line. suiteDone env (n, nSuites) code w
              = Done (phantom_exit (if 99 \<in> set (exitCodes w @ [code]) then 99 else 0)
                       (console_log line (w\<lparr>exitCodes := exitCodes w @ [code]\<rparr>))))"
    using suiteDone_last [of n nSuites env code w] by blast
  from m po pc lo hi pend
  have "\<exists>m. 1 \<le> m \<and> m \<le> length (registeredSuites w0)
            \<and> page_opens (out ?w) = page_opens (out w0) @ map url (take m (registeredSuites w0))
            \<and> pages_created (out ?w) = pages_created (out w0) + m
            \<and> length (exitCodes w0) + (m - 1) \<le> length (exitCodes ?w)
            \<and> length (exitCodes ?w) \<le> length (exitCodes w0) + m
            \<and> (\<forall>c pg. pending ?w = Some (c, pg) \<longrightarrow>
                  c_suiteId c = m - 1 \<and> c_done c = (m - 1, length (registeredSuites w0))
                  \<and> length (exitCodes ?w) = length (exitCodes w0) + (m - 1)
                  \<and> (\<exists>w'. quietly (?w\<lparr>pending := None\<rparr>) w'
                        \<and> (run env (Suc k) (state_of (start env w0)) = w'
                            \<or> (\<exists>code. run env (Suc k) (state_of (start env w0))
                                          = uncaught (suiteDone env (c_done c) code w')))))"
    by (intro exI [of _ m] conjI allI impI) blast+
  then show ?thesis using sd1 sd2 sd3 by (intro conjI)
qed


theorem suites_run_in_registration_order_witness:
  "registeredSuites w_ab \<noteq> [] \<and> exited w_ab = None
   \<and> page_opens (out (run sample_host 1 (state_of (start sample_host w_ab))))
        = [''http://a.test/'', ''http://b.test/'']
   \<and> exitCodes (run sample_host 1 (state_of (start sample_host w_ab))) = [0]
   \<and> pages_created (out (run sample_host 1 (state_of (start sample_host w_ab))))
        \<le> length (exitCodes (run sample_host 1 (state_of (start sample_host w_ab)))) + 1"
proof -
  have h1: "registeredSuites w_ab \<noteq> []" and h2: "exited w_ab = None"
    and c0: "exitCodes w_ab = []" and o0: "out w_ab = []"
    by (simp_all add: w_ab_def registerSuite_def userScript_def initial_def sample_host_def
          parseCommandLineCfg_def Let_def)
  have e1: "page_opens (out (run sample_host 1 (state_of (start sample_host w_ab))))
              = [''http://a.test/'', ''http://b.test/'']"
    by (simp add: model_defs page_opens_def)
  have e2: "exitCodes (run sample_host 1 (state_of (start sample_host w_ab))) = [0]"
    by (simp add: model_defs)
  from suites_run_in_registration_order [OF h1 h2, of sample_host 1 0 2 0 w_ab]
  obtain m where
    "pages_created (out (run sample_host 1 (state_of (start sample_host w_ab)))) = pages_created (out w_ab) + m"
    "length (exitCodes w_ab) + (m - 1) \<le> length (exitCodes (run sample_host 1 (state_of (start sample_host w_ab))))"
    "1 \<le> m"
    by blast
  then have "pages_created (out (run sample_host 1 (state_of (start sample_host w_ab))))
        \<le> length (exitCodes (run sample_host 1 (state_of (start sample_host w_ab)))) + 1"
    using c0 o0 by (simp add: pages_created_def)
  then show ?thesis using h1 h2 e1 e2 by blast
qed

subsection \<open>C9: a script that cannot be injected\<close>

text \<open>
  Claim C9 says that a failed polyfill injection aborts the run, so that no user script
  is injected, no xunit library is installed and no test is gathered or run, for that
  suite and all later ones, and that a failed user-script injection does the same. The
  polyfills are injected in \<^verbatim>\<open>page.onInitialized\<close>, which throws at the first failure;
  the later steps are in the callback of \<^verbatim>\<open>page.open\<close>, which PhantomJS calls all the
  same when the load has finished, and which does not know of the failure. With the
  polyfill \<^verbatim>\<open>missing.js\<close>, one user script and one suite, the error is reported and
  then the user script is injected, the test runs and the process exits with status 0.
\<close>

theorem polyfill_failure_does_not_stop_the_suite:
  "polyfillPaths w_poly = Some [''missing.js'']
   \<and> injectJs sample_host ''missing.js'' None = (False, None)
   \<and> out (run sample_host 1 (state_of (start sample_host w_poly))) =
      [ConsoleLog ''Starting test suite 1/1: http://a.test/\<newline>'', WebpageCreate,
       PageOpen ''http://a.test/'', InjectJs ''missing.js'' False,
       Uncaught CantInjectPolyfill, InjectJs ''user.js'' True,
       EvaluateXunit None ''assert'', EvaluateTest 0,
       ConsoleLog '' [ OK ] passes'', EvaluateTally ''assert'',
       ConsoleLog ''\<newline>  Test suite 1/1 finished: 1 asserts OK\<newline>'',
       ConsoleLog ''All suites finished; OK'', PhantomExit 0]
   \<and> exited (run sample_host 1 (state_of (start sample_host w_poly))) = Some 0"
  by (simp add: model_defs)

text \<open>
  The sibling path does stop: a user script that cannot be injected makes the callback
  of \<^verbatim>\<open>page.open\<close> throw before the xunit library is installed, so no test is gathered or
  run, no exit code is recorded, the second suite is never started, and the process
  never exits.
\<close>

lemma userscript_failure_stops_the_run:
  "userScriptPaths w_user = Some [''missing.js'']
   \<and> out (run sample_host (Suc k) (state_of (start sample_host w_user))) =
      [ConsoleLog ''Starting test suite 1/2: http://a.test/\<newline>'', WebpageCreate,
       PageOpen ''http://a.test/'', InjectJs ''missing.js'' False,
       Uncaught CantInjectUserscript]
   \<and> exitCodes (run sample_host (Suc k) (state_of (start sample_host w_user))) = []
   \<and> exited (run sample_host (Suc k) (state_of (start sample_host w_user))) = None"
proof -
  have p: "pending (host_load sample_host (state_of (start sample_host w_user))) = None"
    by (simp add: model_defs)
  have r: "run sample_host (Suc k) (state_of (start sample_host w_user))
             = host_load sample_host (state_of (start sample_host w_user))"
    using run_idle [OF p, of sample_host k] by (simp add: model_defs)
  show ?thesis unfolding r by (simp add: model_defs)
qed

subsection \<open>C10: the debug and verbose flags of a suite\<close>

text \<open>
  Claim C10. The callbacks that \<open>openAndTest\<close> installs use as debug flag the value of
  \<^verbatim>\<open>phantom.debug\<close> of the suite configuration whenever it is defined, an explicit false
  included, and otherwise whether \<^verbatim>\<open>--debug\<close> is on the command line; the verbose flag
  follows \<^verbatim>\<open>phantom.verbose\<close> and \<^verbatim>\<open>--verbose\<close> in the same way.
\<close>

theorem openAndTest_flags:
  "\<exists>c. pending (openAndTest env u feed suiteId done w) = Some (c, webpage_create env)
     \<and> c_bDebug c =
         (case phantom (config w) of
            None \<Rightarrow> ''--debug'' \<in> set (system_args env)
          | Some p \<Rightarrow> (case ph_debug p of None \<Rightarrow> ''--debug'' \<in> set (system_args env) | Some d \<Rightarrow> d))
     \<and> c_bVerbose c =
         (case phantom (config w) of
            None \<Rightarrow> ''--verbose'' \<in> set (system_args env)
          | Some p \<Rightarrow> (case ph_verbose p of None \<Rightarrow> ''--verbose'' \<in> set (system_args env) | Some v \<Rightarrow> v))"
  by (simp add: openAndTest_def Let_def emit_def CFG_debug CFG_verbose split: option.split)

theorem openAndTest_flags_witness:
  "\<exists>c. pending (openAndTest (sample_host\<lparr>system_args := [''phantomjs'', ''run.js'', ''--debug'']\<rparr>)
                  ''http://a.test/'' [] 0 (0, 1)
                  (setConfig \<lparr> phantom = Some \<lparr> ph_debug = Some False, ph_verbose = None,
                                                  ignoredErrors = None \<rparr> \<rparr>
                     (initial sample_host))) = Some (c, None)
     \<and> c_bDebug c = False \<and> c_bVerbose c = False"
  using openAndTest_flags
          [of "sample_host\<lparr>system_args := [''phantomjs'', ''run.js'', ''--debug'']\<rparr>" "''http://a.test/''"
              "[]" 0 "(0, 1)"
              "setConfig \<lparr> phantom = Some \<lparr> ph_debug = Some False, ph_verbose = None,
                                              ignoredErrors = None \<rparr> \<rparr> (initial sample_host)"]
  by (simp add: setConfig_def sample_host_def)

end
